theory Spec2Isabelle
  imports Complex_Main "HOL-Library.Log_Nat" "HOL-Library.Sublist"
begin

section \<open>The C library calls the sources make\<close>

text \<open>
  The sources under \<^verbatim>\<open>src/lib/src/libsysres\<close>, \<^verbatim>\<open>src/deploy\<close> and
  \<^verbatim>\<open>src/tools/libsysres\<close> read small text files, one environment variable and a few
  host figures. A file's content and a buffer are a \<^typ>\<open>string\<close> (a list of bytes);
  \<^verbatim>\<open>long long\<close> and \<^verbatim>\<open>int64_t\<close> are \<^typ>\<open>int\<close> with the two's complement
  wrap-around written out where the code does arithmetic.
\<close>

definition NUL :: char where
  "NUL = CHR 0x00"

text \<open>The C string held by a zero-initialised buffer: the bytes before the first NUL.\<close>

definition cstr :: "string \<Rightarrow> string" where
  "cstr buff = takeWhile (\<lambda>c. c \<noteq> NUL) buff"

text \<open>\<^verbatim>\<open>fread(buff, 1, n, fd)\<close> on a freshly opened file: the first \<open>n\<close> bytes.\<close>

definition fread :: "nat \<Rightarrow> string \<Rightarrow> string" where
  "fread n content = take n content"

text \<open>\<^verbatim>\<open>isspace\<close> in the C locale: space, \<^verbatim>\<open>\t \n \v \f \r\<close>.\<close>

definition isspace :: "char \<Rightarrow> bool" where
  "isspace c = (c \<in> set [CHR 0x20, CHR 0x09, CHR 0x0A, CHR 0x0B, CHR 0x0C, CHR 0x0D])"

definition isdigit :: "char \<Rightarrow> bool" where
  "isdigit c = (c \<in> set ''0123456789'')"

definition digit_val :: "char \<Rightarrow> int" where
  "digit_val c = int (of_char c) - 48"

definition dec_val :: "string \<Rightarrow> int" where
  "dec_val ds = foldl (\<lambda>a c. 10 * a + digit_val c) 0 ds"

definition LLONG_MAX :: int where
  "LLONG_MAX = 2 ^ 63 - 1"

definition LLONG_MIN :: int where
  "LLONG_MIN = - (2 ^ 63)"

text \<open>
  The subject sequence of \<^verbatim>\<open>strtoll(s, NULL, 10)\<close> and of a \<^verbatim>\<open>%lld\<close> conversion:
  white space, an optional sign, then decimal digits. The result is the value, clamped
  to the range of \<^verbatim>\<open>long long\<close> as glibc does, and the rest of the input; \<open>None\<close>
  when no digit follows.
\<close>

definition scan_sign :: "string \<Rightarrow> bool \<times> string" where
  "scan_sign s =
     (case s of
        [] \<Rightarrow> (False, [])
      | c # r \<Rightarrow> if c = CHR ''-'' then (True, r)
                else if c = CHR ''+'' then (False, r)
                else (False, s))"

definition scan_lld :: "string \<Rightarrow> (int \<times> string) option" where
  "scan_lld s =
     (let (neg, s2) = scan_sign (dropWhile isspace s);
          ds = takeWhile isdigit s2
      in if ds = [] then None
         else Some (if neg then max LLONG_MIN (- dec_val ds) else min LLONG_MAX (dec_val ds),
                    dropWhile isdigit s2))"

text \<open>\<^verbatim>\<open>strtoll(s, NULL, 10)\<close>: 0 when no conversion is performed.\<close>

definition strtoll :: "string \<Rightarrow> int" where
  "strtoll s = (case scan_lld s of None \<Rightarrow> 0 | Some (v, _) \<Rightarrow> v)"

text \<open>\<^verbatim>\<open>strncmp(buff, lit, n) == 0\<close> for a literal of exactly \<open>n\<close> bytes without NUL.\<close>

definition strncmp_eq :: "string \<Rightarrow> string \<Rightarrow> nat \<Rightarrow> bool" where
  "strncmp_eq s lit n = (take n s = take n lit)"

text \<open>\<^verbatim>\<open>strstr(buff, name)\<close>: the tail of \<open>buff\<close> from the first occurrence of \<open>name\<close>.\<close>

fun strstr :: "string \<Rightarrow> string \<Rightarrow> string option" where
  "strstr [] name = (if name = [] then Some [] else None)"
| "strstr (c # cs) name = (if prefix name (c # cs) then Some (c # cs) else strstr cs name)"

text \<open>
  Signed 64-bit and 32-bit wrap-around of an integer result. An \<^verbatim>\<open>int64_t\<close> product or
  difference that overflows is undefined in C; the model takes the two's complement
  result. The conversion \<^verbatim>\<open>(int32_t)\<close> of a wider value is the value modulo \<open>2 ^ 32\<close>.
\<close>

definition wrap64 :: "int \<Rightarrow> int" where
  "wrap64 x = (x + 2 ^ 63) mod 2 ^ 64 - 2 ^ 63"

definition wrap32 :: "int \<Rightarrow> int" where
  "wrap32 x = (x + 2 ^ 31) mod 2 ^ 32 - 2 ^ 31"

section \<open>The system state the functions read\<close>

text \<open>
  Every function is a function of the state at the time of the call: the files that
  \<^verbatim>\<open>fopen\<close> can open, with their content (\<open>None\<close> when it fails); the environment
  (\<^verbatim>\<open>getenv\<close>); the result of \<^verbatim>\<open>get_nprocs()\<close>; the first load average of
  \<^verbatim>\<open>getloadavg\<close>, a \<^verbatim>\<open>double\<close> given by its exact value (\<open>None\<close> when the call fails);
  and the three fields of \<^verbatim>\<open>struct sysinfo\<close> that the older \<^verbatim>\<open>get_memory_usage\<close> reads.
\<close>

record sysstate =
  files :: "string \<Rightarrow> string option"
  environ :: "string \<Rightarrow> string option"
  nprocs :: int
  loadavg :: "rat option"
  totalram :: int
  freeram :: int
  mem_unit :: int

section \<open>\<^verbatim>\<open>src/lib/src/libsysres/memory.c\<close> (Linux)\<close>

definition get_entry :: "string \<Rightarrow> string \<Rightarrow> int" where
  "get_entry name buff =
     (case strstr buff name of
        None \<Rightarrow> 0
      | Some hit \<Rightarrow> strtoll (drop (length name) hit))"

definition read_cgroup_value :: "sysstate \<Rightarrow> string \<Rightarrow> int" where
  "read_cgroup_value s path =
     (case files s path of
        None \<Rightarrow> - 1
      | Some content \<Rightarrow>
          let buff = cstr (fread 63 content) in
          if length (fread 63 content) = 0 then - 1
          else if strncmp_eq buff ''max'' 3 then - 1
          else strtoll buff)"

definition get_proc_meminfo :: "sysstate \<Rightarrow> int \<times> int" where
  "get_proc_meminfo s =
     (case files s ''/proc/meminfo'' of
        None \<Rightarrow> (0, 0)
      | Some content \<Rightarrow>
          let buff = cstr (fread 4095 content) in
          if length (fread 4095 content) = 0 then (0, 0)
          else
            let total_kb = get_entry ''MemTotal:'' buff;
                free_kb = get_entry ''MemFree:'' buff;
                buffers_kb = get_entry ''Buffers:'' buff;
                cached_kb = get_entry ''Cached:'' buff
            in (wrap64 (total_kb * 1024),
                wrap64 (wrap64 (wrap64 (wrap64 (total_kb - free_kb) - buffers_kb) - cached_kb) * 1024)))"

definition has_cgroup_memory_limit :: "sysstate \<Rightarrow> bool" where
  "has_cgroup_memory_limit s = (read_cgroup_value s ''/sys/fs/cgroup/memory.max'' > 0)"

definition is_container_env :: "sysstate \<Rightarrow> bool" where
  "is_container_env s = has_cgroup_memory_limit s"

definition get_memory_limit_bytes :: "sysstate \<Rightarrow> int" where
  "get_memory_limit_bytes s =
     (let cgroup_limit = read_cgroup_value s ''/sys/fs/cgroup/memory.max'' in
      if cgroup_limit > 0 then cgroup_limit
      else fst (get_proc_meminfo s))"

definition get_memory_used_bytes :: "sysstate \<Rightarrow> int" where
  "get_memory_used_bytes s =
     (let current = read_cgroup_value s ''/sys/fs/cgroup/memory.current'' in
      if has_cgroup_memory_limit s \<and> current \<ge> 0 then current
      else snd (get_proc_meminfo s))"

section \<open>Single-precision floats\<close>

text \<open>
  A \<^verbatim>\<open>float\<close> is an IEEE 754 binary32 value: a sign and a magnitude, an infinity with
  its sign, or a NaN. The magnitude of a finite value is an exact rational; every
  operation rounds its exact result to the nearest binary32 magnitude, ties to even.
\<close>

datatype cfloat = Fin bool rat | Infty bool | NaN

text \<open>For \<open>x > 0\<close>, the exponent \<open>e\<close> with \<open>2 powi e \<le> x < 2 powi (e + 1)\<close>.\<close>

definition floor_log2 :: "rat \<Rightarrow> int" where
  "floor_log2 x =
     (let (a, b) = quotient_of x; e0 = bitlen a - bitlen b
      in if 2 powi e0 \<le> x then e0 else e0 - 1)"

definition round_half_even :: "rat \<Rightarrow> int" where
  "round_half_even x =
     (let n = \<lfloor>x\<rfloor>; r = x - of_int n
      in if r < 1 / 2 then n
         else if r > 1 / 2 then n + 1
         else if even n then n else n + 1)"

text \<open>
  Rounding a magnitude \<open>x \<ge> 0\<close> to 24 significant bits, with the smallest exponent
  \<open>- 126\<close> (below it the spacing stays \<open>2 powi (- 149)\<close>: subnormal numbers).
\<close>

definition round_mag32 :: "rat \<Rightarrow> rat" where
  "round_mag32 x =
     (if x = 0 then 0
      else let e = max (floor_log2 x) (- 126); ulp = 2 powi (e - 23)
           in of_int (round_half_even (x / ulp)) * ulp)"

definition to_float :: "bool \<Rightarrow> rat \<Rightarrow> cfloat" where
  "to_float sg x = (let y = round_mag32 x in if y \<ge> 2 ^ 128 then Infty sg else Fin sg y)"

text \<open>The conversions \<^verbatim>\<open>(float)i\<close> of an integer and \<^verbatim>\<open>(float)d\<close> of a double.\<close>

definition float_of_int :: "int \<Rightarrow> cfloat" where
  "float_of_int i = to_float (i < 0) \<bar>of_int i\<bar>"

definition float_of_double :: "rat \<Rightarrow> cfloat" where
  "float_of_double d = to_float (d < 0) \<bar>d\<bar>"

fun fdiv :: "cfloat \<Rightarrow> cfloat \<Rightarrow> cfloat" where
  "fdiv NaN b = NaN"
| "fdiv (Infty s) NaN = NaN"
| "fdiv (Fin s x) NaN = NaN"
| "fdiv (Infty s) (Infty t) = NaN"
| "fdiv (Infty s) (Fin t y) = Infty (s \<noteq> t)"
| "fdiv (Fin s x) (Infty t) = Fin (s \<noteq> t) 0"
| "fdiv (Fin s x) (Fin t y) =
     (if y = 0 then (if x = 0 then NaN else Infty (s \<noteq> t))
      else to_float (s \<noteq> t) (x / y))"

definition fval :: "bool \<Rightarrow> rat \<Rightarrow> rat" where
  "fval sg m = (if sg then - m else m)"

text \<open>The comparisons \<^verbatim>\<open><=\<close> and \<^verbatim>\<open>>\<close>: false when an operand is a NaN.\<close>

fun fle :: "cfloat \<Rightarrow> cfloat \<Rightarrow> bool" where
  "fle NaN b = False"
| "fle (Infty s) NaN = False"
| "fle (Fin s x) NaN = False"
| "fle (Infty s) (Infty t) = (s \<or> \<not> t)"
| "fle (Infty s) (Fin t y) = s"
| "fle (Fin s x) (Infty t) = (\<not> t)"
| "fle (Fin s x) (Fin t y) = (fval s x \<le> fval t y)"

fun fgt :: "cfloat \<Rightarrow> cfloat \<Rightarrow> bool" where
  "fgt NaN b = False"
| "fgt (Infty s) NaN = False"
| "fgt (Fin s x) NaN = False"
| "fgt (Infty s) (Infty t) = (\<not> s \<and> t)"
| "fgt (Infty s) (Fin t y) = (\<not> s)"
| "fgt (Fin s x) (Infty t) = t"
| "fgt (Fin s x) (Fin t y) = (fval s x > fval t y)"

text \<open>The constants \<^verbatim>\<open>0\<close>, \<^verbatim>\<open>0.0f\<close> and \<^verbatim>\<open>-1.0f\<close>.\<close>

definition fzero :: cfloat where
  "fzero = Fin False 0"

definition fminus1 :: cfloat where
  "fminus1 = Fin True 1"

subsection \<open>\<^verbatim>\<open>strtof\<close>\<close>

definition lower :: "char \<Rightarrow> char" where
  "lower c = (let n = (of_char c :: nat) in if 65 \<le> n \<and> n \<le> 90 then char_of (n + 32) else c)"

definition isxdigit :: "char \<Rightarrow> bool" where
  "isxdigit c = (lower c \<in> set ''0123456789abcdef'')"

definition xdigit_val :: "char \<Rightarrow> int" where
  "xdigit_val c = (if isdigit c then digit_val c else int (of_char (lower c)) - 87)"

definition hex_val :: "string \<Rightarrow> int" where
  "hex_val ds = foldl (\<lambda>a c. 16 * a + xdigit_val c) 0 ds"

text \<open>
  An exponent part: the marker (\<open>e\<close> or \<open>p\<close>, either case), an optional sign and at least
  one decimal digit; 0 when the input has no such part.
\<close>

definition scan_exponent :: "char \<Rightarrow> string \<Rightarrow> int" where
  "scan_exponent marker s =
     (case s of
        [] \<Rightarrow> 0
      | c # r \<Rightarrow>
          if lower c = marker then
            (let (neg, r2) = scan_sign r; ds = takeWhile isdigit r2
             in if ds = [] then 0 else if neg then - dec_val ds else dec_val ds)
          else 0)"

text \<open>
  A digit sequence with an optional radix point: the digits before the point, the digits
  after it, and the rest of the input.
\<close>

definition scan_mantissa :: "(char \<Rightarrow> bool) \<Rightarrow> string \<Rightarrow> string \<times> string \<times> string" where
  "scan_mantissa isd s =
     (let ip = takeWhile isd s; r = dropWhile isd s
      in case r of
           [] \<Rightarrow> (ip, [], [])
         | c # r2 \<Rightarrow> if c = CHR ''.'' then (ip, takeWhile isd r2, dropWhile isd r2)
                     else (ip, [], r))"

text \<open>
  \<^verbatim>\<open>strtof(s, NULL)\<close> in the C locale, as glibc converts: white space, an optional sign,
  then \<open>inf\<close> or \<open>infinity\<close>, \<open>nan\<close>, a hexadecimal or a decimal floating constant; the
  exact value is rounded to the nearest \<^verbatim>\<open>float\<close>. \<open>None\<close> when no conversion is
  performed (no number starts the string).
\<close>

definition strtof_conv :: "string \<Rightarrow> cfloat option" where
  "strtof_conv s =
     (let (neg, s2) = scan_sign (dropWhile isspace s);
          low = map lower s2
      in if prefix ''inf'' low then Some (Infty neg)
         else if prefix ''nan'' low then Some NaN
         else
           let (xip, xfp, xr) = scan_mantissa isxdigit (drop 2 s2) in
           if prefix ''0x'' low \<and> xip @ xfp \<noteq> [] then
             Some (to_float neg (of_int (hex_val (xip @ xfp)) *
                     2 powi (scan_exponent (CHR ''p'') xr - 4 * int (length xfp))))
           else
             let (ip, fp, r) = scan_mantissa isdigit s2 in
             if ip @ fp = [] then None
             else Some (to_float neg (of_int (dec_val (ip @ fp)) *
                          10 powi (scan_exponent (CHR ''e'') r - int (length fp)))))"

definition strtof :: "string \<Rightarrow> cfloat" where
  "strtof s = (case strtof_conv s of None \<Rightarrow> fzero | Some f \<Rightarrow> f)"

section \<open>\<^verbatim>\<open>src/lib/src/libsysres/memory.c\<close>: the usage ratio\<close>

definition get_memory_usage :: "sysstate \<Rightarrow> cfloat" where
  "get_memory_usage s =
     (let limit = get_memory_limit_bytes s;
          used = get_memory_used_bytes s
      in if limit \<le> 0 then fzero
         else fdiv (float_of_int used) (float_of_int limit))"

section \<open>\<^verbatim>\<open>src/lib/src/libsysres/cpu.c\<close> (Linux)\<close>

text \<open>
  \<^verbatim>\<open>sscanf(buff, "%lld %lld", &quota, &period)\<close>: the number of conversions done, and
  the two variables (both initialised to 0 by the caller).
\<close>

definition sscanf_lld_lld :: "string \<Rightarrow> nat \<times> int \<times> int" where
  "sscanf_lld_lld buff =
     (case scan_lld buff of
        None \<Rightarrow> (0, 0, 0)
      | Some (quota, r) \<Rightarrow>
          (case scan_lld r of
             None \<Rightarrow> (1, quota, 0)
           | Some (period, _) \<Rightarrow> (2, quota, period)))"

definition get_cgroup_cpu_limit :: "sysstate \<Rightarrow> cfloat" where
  "get_cgroup_cpu_limit s =
     (case files s ''/sys/fs/cgroup/cpu.max'' of
        None \<Rightarrow> fminus1
      | Some content \<Rightarrow>
          let buff = cstr (fread 63 content) in
          if length (fread 63 content) = 0 then fminus1
          else if strncmp_eq buff ''max'' 3 then fminus1
          else
            let (n, quota, period) = sscanf_lld_lld buff in
            if n \<noteq> 2 then fminus1
            else if period \<le> 0 then fminus1
            else fdiv (float_of_int quota) (float_of_int period))"

definition get_env_cpu_limit :: "sysstate \<Rightarrow> cfloat" where
  "get_env_cpu_limit s =
     (case environ s ''SYSRES_CPU_CORES'' of
        None \<Rightarrow> fminus1
      | Some env_val \<Rightarrow>
          let cores = strtof env_val in
          if fle cores fzero then fminus1 else cores)"

definition get_cpu_limit_cores :: "sysstate \<Rightarrow> cfloat" where
  "get_cpu_limit_cores s =
     (let env_limit = get_env_cpu_limit s in
      if fgt env_limit fzero then env_limit
      else
        let cgroup_limit = get_cgroup_cpu_limit s in
        if fgt cgroup_limit fzero then cgroup_limit
        else float_of_int (nprocs s))"

text \<open>
  \<^verbatim>\<open>getloadavg(load, 1)\<close> leaves \<^verbatim>\<open>load[0]\<close> at its initial 0 when it fails. The divisor
  of the final division is a function of its own, so that it can be named.
\<close>

definition cpu_load_divisor :: "sysstate \<Rightarrow> cfloat" where
  "cpu_load_divisor s =
     (let cpu_limit = get_cpu_limit_cores s in
      if fle cpu_limit fzero then float_of_int (nprocs s) else cpu_limit)"

definition get_cpu_load :: "sysstate \<Rightarrow> cfloat" where
  "get_cpu_load s =
     (let load0 = (case loadavg s of None \<Rightarrow> 0 | Some l \<Rightarrow> l)
      in fdiv (float_of_double load0) (cpu_load_divisor s))"

section \<open>\<^verbatim>\<open>src/deploy/monitor.c\<close>: the limit in millicores\<close>

text \<open>
  A \<^verbatim>\<open>%63s\<close> conversion: white space is skipped, then at most 63 bytes that are not
  white space are stored; it fails at the end of the input.
\<close>

definition scan_s63 :: "string \<Rightarrow> (string \<times> string) option" where
  "scan_s63 s =
     (let s1 = dropWhile isspace s;
          tok = take 63 (takeWhile (\<lambda>c. \<not> isspace c) s1)
      in if tok = [] then None else Some (tok, drop (length tok) s1))"

text \<open>\<^verbatim>\<open>atoll\<close> is \<^verbatim>\<open>strtoll(s, NULL, 10)\<close> in glibc.\<close>

definition atoll :: "string \<Rightarrow> int" where
  "atoll s = strtoll s"

text \<open>The division of C: the quotient is truncated towards zero.\<close>

definition c_div :: "int \<Rightarrow> int \<Rightarrow> int" where
  "c_div a b = sgn a * sgn b * (\<bar>a\<bar> div \<bar>b\<bar>)"

text \<open>\<^verbatim>\<open>(int32_t)((quota * 1000) / period)\<close> on \<^verbatim>\<open>int64_t\<close> operands.\<close>

definition millicores :: "int \<Rightarrow> int \<Rightarrow> int" where
  "millicores quota period = wrap32 (c_div (wrap64 (quota * 1000)) period)"

definition legacy_paths :: "(string \<times> string) list" where
  "legacy_paths =
     [(''/sys/fs/cgroup/cpu/cpu.cfs_quota_us'', ''/sys/fs/cgroup/cpu/cpu.cfs_period_us''),
      (''/sys/fs/cgroup/cpu,cpuacct/cpu.cfs_quota_us'',
       ''/sys/fs/cgroup/cpu,cpuacct/cpu.cfs_period_us'')]"

text \<open>
  What a call of \<^verbatim>\<open>get_cpu_limit_millicores\<close> does: it returns a value, or its behaviour
  is undefined.
\<close>

datatype outcome = Returns int | Undefined

text \<open>
  The loop over the two legacy mount points. A pair of files that both open and both
  hold an integer decides the result when the quota is \<open>- 1\<close> or the period is positive.
  Otherwise the source, which has closed both files after reading them, closes both a
  second time at the end of the iteration: the behaviour is undefined (glibc aborts).
  A pair that does not open, or that does not hold two integers, is closed once and the
  loop goes on.
\<close>

fun legacy_loop :: "sysstate \<Rightarrow> (string \<times> string) list \<Rightarrow> outcome" where
  "legacy_loop s [] = Returns (- 1)"
| "legacy_loop s ((quota_path, period_path) # rest) =
     (case (files s quota_path, files s period_path) of
        (Some fp_quota, Some fp_period) \<Rightarrow>
          (case scan_lld fp_quota of
             None \<Rightarrow> legacy_loop s rest
           | Some (quota, _) \<Rightarrow>
               (case scan_lld fp_period of
                  None \<Rightarrow> legacy_loop s rest
                | Some (period, _) \<Rightarrow>
                    if quota = - 1 then Returns (- 1)
                    else if period > 0 then Returns (millicores quota period)
                    else Undefined))
      | _ \<Rightarrow> legacy_loop s rest)"

definition get_cpu_limit_millicores :: "sysstate \<Rightarrow> outcome" where
  "get_cpu_limit_millicores s =
     (let legacy = legacy_loop s legacy_paths in
      case files s ''/sys/fs/cgroup/cpu.max'' of
        None \<Rightarrow> legacy
      | Some fp \<Rightarrow>
          (case scan_s63 fp of
             None \<Rightarrow> legacy
           | Some (quota_str, r) \<Rightarrow>
               (case scan_s63 r of
                  None \<Rightarrow> legacy
                | Some (period_str, _) \<Rightarrow>
                    if cstr quota_str = ''max'' then Returns (- 1)
                    else
                      let quota = atoll (cstr quota_str);
                          period = atoll (cstr period_str)
                      in if period > 0 then Returns (millicores quota period) else legacy)))"

section \<open>\<^verbatim>\<open>src/tools/libsysres/memory.c\<close> (Linux)\<close>

text \<open>
  The older \<^verbatim>\<open>get_memory_usage\<close>, from \<^verbatim>\<open>sysinfo\<close>. The products are computed in
  \<^verbatim>\<open>unsigned long\<close> and stored in a \<^verbatim>\<open>long long\<close>: the value modulo \<open>2 ^ 64\<close>, read as
  two's complement.
\<close>

definition get_memory_usage_tools :: "sysstate \<Rightarrow> cfloat" where
  "get_memory_usage_tools s =
     (let total_memory = wrap64 (totalram s * mem_unit s);
          used_memory = wrap64 ((totalram s - freeram s) * mem_unit s)
      in fdiv (float_of_int used_memory) (float_of_int total_memory))"

section \<open>File contents and example states\<close>

text \<open>
  The kernel writes integers in decimal. \<open>dec n\<close> is the text of \<open>n \<ge> 0\<close>, as \<^verbatim>\<open>%lld\<close>
  and \<^verbatim>\<open>%lu\<close> print it.
\<close>

definition digit_char :: "int \<Rightarrow> char" where
  "digit_char d = ''0123456789'' ! nat d"

function dec :: "int \<Rightarrow> string" where
  "dec n = (if n < 10 then [digit_char n] else dec (n div 10) @ [digit_char (n mod 10)])"
  by pat_completeness auto
termination
  by (relation "measure nat") auto

declare dec.simps [simp del]

text \<open>Parsing stops after printed digits when the text does not go on with a digit.\<close>

definition no_digit_ahead :: "string \<Rightarrow> bool" where
  "no_digit_ahead r = (case r of [] \<Rightarrow> True | c # _ \<Rightarrow> \<not> isdigit c)"

text \<open>The content of \<^verbatim>\<open>cpu.max\<close> for a bounded quota: \<^verbatim>\<open>"%lld %lld\n"\<close>.\<close>

definition cpu_max_text :: "int \<Rightarrow> int \<Rightarrow> string" where
  "cpu_max_text quota period = dec quota @ '' '' @ dec period @ ''\<newline>''"

text \<open>
  A block in the format of \<^verbatim>\<open>/proc/meminfo\<close>: one line per entry, the key, a colon,
  padding, the figure in kB. An entry is the key, the number of padding spaces and the
  figure.
\<close>

definition meminfo_line :: "string \<times> nat \<times> int \<Rightarrow> string" where
  "meminfo_line e =
     (case e of (key, pad, kb) \<Rightarrow> key @ '':'' @ replicate pad (CHR '' '') @ dec kb @ '' kB\<newline>'')"

definition meminfo_text :: "(string \<times> nat \<times> int) list \<Rightarrow> string" where
  "meminfo_text es = concat (map meminfo_line es)"

text \<open>The figure of the first line whose key ends with \<open>key\<close>; 0 when there is none.\<close>

definition meminfo_kb :: "string \<Rightarrow> (string \<times> nat \<times> int) list \<Rightarrow> int" where
  "meminfo_kb key es =
     (case find (\<lambda>e. suffix key (fst e)) es of
        None \<Rightarrow> 0
      | Some e \<Rightarrow> snd (snd e))"

text \<open>
  A well-formed block: no key holds a colon, a newline or a NUL, every figure is in
  \<open>0 ..< 2 ^ 50\<close>, and the text fits the reader's buffer of 4095 bytes.
\<close>

definition meminfo_wf :: "(string \<times> nat \<times> int) list \<Rightarrow> bool" where
  "meminfo_wf es =
     (list_all (\<lambda>e. list_all (\<lambda>c. c \<noteq> CHR '':'' \<and> c \<noteq> CHR 0x0A \<and> c \<noteq> NUL) (fst e)
                     \<and> 0 \<le> snd (snd e) \<and> snd (snd e) < 2 ^ 50) es
      \<and> length (meminfo_text es) \<le> 4095)"

text \<open>A host with eight cores, no cgroup files, no \<^verbatim>\<open>/proc/meminfo\<close> and no override.\<close>

definition bare_host :: sysstate where
  "bare_host =
     \<lparr>files = Map.empty, environ = Map.empty, nprocs = 8, loadavg = Some (3 / 2),
      totalram = 2048000000, freeram = 512000000, mem_unit = 1\<rparr>"

definition meminfo_example :: string where
  "meminfo_example =
     ''MemTotal:        2000000 kB\<newline>MemFree:          500000 kB\<newline>Buffers:          100000 kB\<newline>Cached:           400000 kB\<newline>''"

definition meminfo_example_entries :: "(string \<times> nat \<times> int) list" where
  "meminfo_example_entries =
     [(''MemTotal'', 8, 2000000), (''MemFree'', 10, 500000),
      (''Buffers'', 10, 100000), (''Cached'', 11, 400000)]"

definition meminfo_host :: sysstate where
  "meminfo_host = bare_host\<lparr>files := [''/proc/meminfo'' \<mapsto> meminfo_example]\<rparr>"



definition container_no_current :: sysstate where
  "container_no_current =
     bare_host\<lparr>files := [''/sys/fs/cgroup/memory.max'' \<mapsto> ''1073741824\<newline>'',
                           ''/proc/meminfo'' \<mapsto> meminfo_example]\<rparr>"

definition container_idle :: sysstate where
  "container_idle =
     bare_host\<lparr>files := [''/sys/fs/cgroup/memory.max'' \<mapsto> ''1073741824\<newline>'',
                           ''/sys/fs/cgroup/memory.current'' \<mapsto> ''0\<newline>'']\<rparr>"

definition cpu_unbounded :: sysstate where
  "cpu_unbounded = bare_host\<lparr>files := [''/sys/fs/cgroup/cpu.max'' \<mapsto> ''max 100000\<newline>'']\<rparr>"

definition cpu_bounded :: sysstate where
  "cpu_bounded = bare_host\<lparr>files := [''/sys/fs/cgroup/cpu.max'' \<mapsto> ''150000 100000\<newline>'']\<rparr>"

definition cpu_huge_quota :: sysstate where
  "cpu_huge_quota = bare_host\<lparr>files := [''/sys/fs/cgroup/cpu.max'' \<mapsto> ''3000000000 1000\<newline>'']\<rparr>"

definition cpu_negative_quota :: sysstate where
  "cpu_negative_quota = bare_host\<lparr>files := [''/sys/fs/cgroup/cpu.max'' \<mapsto> ''-1 3\<newline>'']\<rparr>"

definition legacy_unbounded :: sysstate where
  "legacy_unbounded =
     bare_host\<lparr>files := [''/sys/fs/cgroup/cpu,cpuacct/cpu.cfs_quota_us'' \<mapsto> ''-1\<newline>'',
                           ''/sys/fs/cgroup/cpu,cpuacct/cpu.cfs_period_us'' \<mapsto> ''100000\<newline>'']\<rparr>"

text \<open>
  A host outside a container whose \<^verbatim>\<open>/proc/meminfo\<close> has no buffers and no cache, in
  agreement with the \<^verbatim>\<open>sysinfo\<close> figures of \<open>bare_host\<close>.
\<close>

definition plain_entries :: "(string \<times> nat \<times> int) list" where
  "plain_entries = [(''MemTotal'', 8, 2000000), (''MemFree'', 10, 500000)]"

definition plain_host :: sysstate where
  "plain_host = bare_host\<lparr>files := [''/proc/meminfo'' \<mapsto> meminfo_text plain_entries]\<rparr>"

definition container_half :: sysstate where
  "container_half =
     bare_host\<lparr>files := [''/sys/fs/cgroup/memory.max'' \<mapsto> ''1073741824\<newline>'',
                           ''/sys/fs/cgroup/memory.current'' \<mapsto> ''536870912\<newline>'']\<rparr>"

definition cpu_zero_period :: sysstate where
  "cpu_zero_period = bare_host\<lparr>files := [''/sys/fs/cgroup/cpu.max'' \<mapsto> ''100000 0\<newline>'']\<rparr>"

definition legacy_zero_period :: sysstate where
  "legacy_zero_period =
     bare_host\<lparr>files := [''/sys/fs/cgroup/cpu/cpu.cfs_quota_us'' \<mapsto> ''250000\<newline>'',
                           ''/sys/fs/cgroup/cpu/cpu.cfs_period_us'' \<mapsto> ''0\<newline>'']\<rparr>"

definition with_override :: "string \<Rightarrow> sysstate" where
  "with_override v = cpu_bounded\<lparr>environ := [''SYSRES_CPU_CORES'' \<mapsto> v]\<rparr>"

section \<open>Properties of the library model\<close>

subsection \<open>Rounding to single precision\<close>

lemma round_half_even_error: "\<bar>of_int (round_half_even x) - x\<bar> \<le> 1 / 2"
proof -
  have "of_int \<lfloor>x\<rfloor> \<le> x" "x < of_int \<lfloor>x\<rfloor> + 1"
    by linarith+
  then show ?thesis
    by (auto simp: round_half_even_def Let_def)
qed

lemma floor_log2_le:
  assumes "0 < x"
  shows "2 powi (floor_log2 x) \<le> x"
proof -
  obtain a b where q: "quotient_of x = (a, b)"
    by (cases "quotient_of x")
  have b: "0 < b" and x: "x = of_int a / of_int b"
    using q quotient_of_denom_pos quotient_of_div by blast+
  have a: "0 < a"
    using assms b x by (simp add: zero_less_divide_iff)
  define e0 where "e0 = bitlen a - bitlen b"
  show ?thesis
  proof (cases "2 powi e0 \<le> x")
    case True
    then show ?thesis
      by (simp add: floor_log2_def q e0_def)
  next
    case False
    have la: "1 \<le> bitlen a" and lb: "1 \<le> bitlen b"
      using a b by (simp_all add: bitlen_alt_def)
    have "(2::int) ^ nat (bitlen a - 1) \<le> a" and "b < 2 ^ nat (bitlen b)"
      using bitlen_bounds a b by blast+
    then have A: "(2::rat) ^ nat (bitlen a - 1) \<le> of_int a"
      and B: "(of_int b :: rat) < 2 ^ nat (bitlen b)"
      by (metis of_int_le_iff of_int_numeral of_int_power,
          metis of_int_less_iff of_int_numeral of_int_power)
    have "e0 - 1 = (bitlen a - 1) - bitlen b"
      by (simp add: e0_def)
    then have "(2::rat) powi (e0 - 1) = 2 powi ((bitlen a - 1) - bitlen b)"
      by (rule arg_cong)
    also have "\<dots> = 2 powi (bitlen a - 1) / 2 powi (bitlen b)"
      by (rule power_int_diff) simp
    also have "\<dots> = 2 ^ nat (bitlen a - 1) / 2 ^ nat (bitlen b)"
      using la lb by (simp add: power_int_nonneg_exp)
    also have "\<dots> \<le> of_int a / of_int b"
      using A B a b by (intro frac_le) auto
    finally have "(2::rat) powi (e0 - 1) \<le> x"
      by (simp only: x)
    moreover have "floor_log2 x = e0 - 1"
      using False by (simp add: floor_log2_def q e0_def)
    ultimately show ?thesis
      by simp
  qed
qed

text \<open>In the normal range the relative error of rounding is at most \<open>2 powi (- 24)\<close>.\<close>

lemma round_mag32_error:
  assumes "2 powi (- 126) \<le> x"
  shows "\<bar>round_mag32 x - x\<bar> \<le> x / 2 ^ 24"
proof -
  have pos: "0 < x"
    using assms by (smt (verit) zero_less_power_int zero_less_numeral order_less_le_trans)
  define e where "e = max (floor_log2 x) (- 126)"
  define ulp :: rat where "ulp = 2 powi (e - 23)"
  have e: "2 powi e \<le> x"
    using floor_log2_le [OF pos] assms by (auto simp: e_def max_def)
  have ulp_pos: "0 < ulp"
    by (simp add: ulp_def)
  have ulp: "ulp = 2 powi e / 2 ^ 23"
    by (simp add: ulp_def power_int_diff)
  have r: "round_mag32 x = of_int (round_half_even (x / ulp)) * ulp"
    using pos by (simp add: round_mag32_def e_def ulp_def Let_def)
  have "round_mag32 x - x = (of_int (round_half_even (x / ulp)) - x / ulp) * ulp"
    using ulp_pos by (simp add: r field_simps)
  then have "\<bar>round_mag32 x - x\<bar> = \<bar>of_int (round_half_even (x / ulp)) - x / ulp\<bar> * ulp"
    using ulp_pos by (simp add: abs_mult)
  also have "\<dots> \<le> 1 / 2 * ulp"
    using round_half_even_error ulp_pos by (intro mult_right_mono) auto
  also have "\<dots> \<le> x / 2 ^ 24"
    using e by (simp add: ulp)
  finally show ?thesis .
qed

subsection \<open>Comparisons, zero and positive values\<close>

lemma fgt_not_fle: "fgt a fzero \<Longrightarrow> \<not> fle a fzero"
  by (cases a) (auto simp: fzero_def fval_def)

lemma fgt_zero_not_zero: "fgt a fzero \<Longrightarrow> a \<noteq> Fin sg 0"
  by (cases a) (auto simp: fzero_def fval_def split: if_splits)

lemma round_mag32_zero: "round_mag32 0 = 0"
  by (simp add: round_mag32_def)

lemma to_float_zero: "to_float sg 0 = Fin sg 0"
  by (simp add: to_float_def round_mag32_zero)

lemma round_mag32_pos:
  assumes "1 \<le> x"
  shows "0 < round_mag32 x"
proof -
  have "(2::rat) powi (- 126) \<le> 1"
    by (simp add: power_int_minus_divide)
  then have "\<bar>round_mag32 x - x\<bar> \<le> x / 2 ^ 24"
    using assms by (intro round_mag32_error) linarith
  then have "x - x / 2 ^ 24 \<le> round_mag32 x"
    by linarith
  moreover have "0 < x - x / 2 ^ 24"
    using assms by (simp add: field_simps)
  ultimately show ?thesis
    by linarith
qed

lemma to_float_pos:
  assumes "1 \<le> x"
  shows "fgt (to_float False x) fzero"
  using round_mag32_pos [OF assms] by (simp add: to_float_def Let_def fzero_def fval_def)

lemma float_of_int_pos: "0 < n \<Longrightarrow> fgt (float_of_int n) fzero"
  using to_float_pos [of "of_int n"] by (simp add: float_of_int_def)

lemma float_of_int_zero: "float_of_int 0 = fzero"
  by (simp add: float_of_int_def to_float_zero fzero_def)

lemma fdiv_zero_pos:
  assumes "1 \<le> x"
  shows "fdiv fzero (to_float False x) = fzero"
proof (cases "2 ^ 128 \<le> round_mag32 x")
  case True
  then have "to_float False x = Infty False"
    by (simp add: to_float_def)
  then show ?thesis
    by (simp add: fzero_def)
next
  case False
  then have "to_float False x = Fin False (round_mag32 x)"
    by (simp add: to_float_def)
  then show ?thesis
    using round_mag32_pos [OF assms] by (simp add: fzero_def to_float_zero)
qed

subsection \<open>The error of a division of two converted integers\<close>

text \<open>Rounding a magnitude in the range of a \<^verbatim>\<open>long long\<close>, or a quotient of two.\<close>

lemma round_mag32_bounds:
  assumes "2 powi (- 126) \<le> x"
  shows "x * (1 - 1 / 2 ^ 24) \<le> round_mag32 x" and "round_mag32 x \<le> x * (1 + 1 / 2 ^ 24)"
proof -
  define d where "d = x / 2 ^ 24"
  have "\<bar>round_mag32 x - x\<bar> \<le> d"
    unfolding d_def using assms by (rule round_mag32_error)
  then have "x - d \<le> round_mag32 x" and "round_mag32 x \<le> x + d"
    by linarith+
  moreover have "x * (1 - 1 / 2 ^ 24) = x - d" and "x * (1 + 1 / 2 ^ 24) = x + d"
    by (simp_all add: d_def algebra_simps)
  ultimately show "x * (1 - 1 / 2 ^ 24) \<le> round_mag32 x"
    and "round_mag32 x \<le> x * (1 + 1 / 2 ^ 24)"
    by simp_all
qed

lemma to_float_finite:
  assumes "2 powi (- 126) \<le> x" and "x \<le> 2 ^ 127"
  shows "to_float sg x = Fin sg (round_mag32 x)"
proof -
  have "round_mag32 x \<le> x * (1 + 1 / 2 ^ 24)"
    using assms(1) by (rule round_mag32_bounds)
  also have "\<dots> \<le> 2 ^ 127 * (1 + 1 / 2 ^ 24)"
    using assms(2) by (intro mult_right_mono) auto
  also have "\<dots> < 2 ^ 128"
    by simp
  finally show ?thesis
    by (simp add: to_float_def)
qed

lemma small_le_one: "(2::rat) powi (- 126) \<le> 1"
  by (simp add: power_int_minus_divide)

lemma float_of_int_finite:
  assumes "1 \<le> n" and "n \<le> 2 ^ 63"
  shows "float_of_int n = Fin False (round_mag32 (of_int n))"
    and "of_int n * (1 - 1 / 2 ^ 24) \<le> round_mag32 (of_int n)"
    and "round_mag32 (of_int n) \<le> of_int n * (1 + 1 / 2 ^ 24)"
proof -
  have one: "(1::rat) \<le> of_int n"
    using assms(1) by simp
  then have lo: "(2::rat) powi (- 126) \<le> of_int n"
    using small_le_one by linarith
  have "(of_int n :: rat) \<le> of_int (2 ^ 63)"
    using assms(2) by (simp only: of_int_le_iff)
  then have hi: "(of_int n :: rat) \<le> 2 ^ 127"
    by simp
  show "float_of_int n = Fin False (round_mag32 (of_int n))"
    using to_float_finite [OF lo hi] assms(1) by (simp add: float_of_int_def)
  show "of_int n * (1 - 1 / 2 ^ 24) \<le> round_mag32 (of_int n)"
    and "round_mag32 (of_int n) \<le> of_int n * (1 + 1 / 2 ^ 24)"
    using round_mag32_bounds [OF lo] by simp_all
qed

lemma fdiv_int_error:
  assumes "0 \<le> q" and "q \<le> 2 ^ 63" and "1 \<le> p" and "p \<le> 2 ^ 63"
  shows "\<exists>c. fdiv (float_of_int q) (float_of_int p) = Fin False c
             \<and> \<bar>c - of_int q / of_int p\<bar> \<le> (of_int q / of_int p) / 2 ^ 22"
proof (cases "q = 0")
  case True
  have "float_of_int p = Fin False (round_mag32 (of_int p))"
    using assms(3,4) by (rule float_of_int_finite)
  moreover have "0 < round_mag32 (of_int p)"
    using assms(3) by (intro round_mag32_pos) simp
  ultimately have "fdiv (float_of_int q) (float_of_int p) = Fin False 0"
    by (simp add: True float_of_int_zero fzero_def to_float_zero)
  then show ?thesis
    by (simp add: True)
next
  case False
  then have q1: "1 \<le> q"
    using assms(1) by simp
  define Q :: rat where "Q = of_int q"
  define P :: rat where "P = of_int p"
  define a where "a = round_mag32 Q"
  define b where "b = round_mag32 P"
  define e :: rat where "e = 1 / 2 ^ 24"
  have Q: "1 \<le> Q" "Q \<le> 2 ^ 63" and P: "1 \<le> P" "P \<le> 2 ^ 63"
    using q1 assms(2,3,4) unfolding Q_def P_def
    by (simp, metis of_int_le_iff of_int_numeral of_int_power, simp,
        metis of_int_le_iff of_int_numeral of_int_power)
  have fa: "float_of_int q = Fin False a" and a: "Q * (1 - e) \<le> a" "a \<le> Q * (1 + e)"
    using float_of_int_finite [OF q1 assms(2)] by (simp_all add: a_def Q_def e_def)
  have fb: "float_of_int p = Fin False b" and b: "P * (1 - e) \<le> b" "b \<le> P * (1 + e)"
    using float_of_int_finite [OF assms(3,4)] by (simp_all add: b_def P_def e_def)
  have e: "0 < e" "e < 1"
    by (simp_all add: e_def)
  have bpos: "0 < P * (1 - e)"
    using P e by simp
  then have b0: "0 < b"
    using b(1) by linarith
  have a0: "0 \<le> Q * (1 - e)"
    using Q e by simp
  define x where "x = a / b"
  have a1: "0 \<le> Q * (1 + e)"
    using Q e by simp
  have a2: "0 \<le> a"
    using a0 a(1) by linarith
  have xl: "Q * (1 - e) / (P * (1 + e)) \<le> x"
    unfolding x_def by (rule frac_le [OF a2 a(1) b0 b(2)])
  have xu: "x \<le> Q * (1 + e) / (P * (1 - e))"
    unfolding x_def by (rule frac_le [OF a1 a(2) bpos b(1)])
  have "(1::rat) * (1 - e) / (2 ^ 63 * (1 + e)) \<le> Q * (1 - e) / (P * (1 + e))"
    using Q P e by (intro frac_le mult_right_mono mult_pos_pos) auto
  moreover have "(2::rat) powi (- 126) \<le> 1 * (1 - e) / (2 ^ 63 * (1 + e))"
    by (simp add: e_def power_int_minus_divide)
  ultimately have xlo: "2 powi (- 126) \<le> x"
    using xl by linarith
  have "Q * (1 + e) / (P * (1 - e)) \<le> 2 ^ 63 * (1 + e) / (1 * (1 - e))"
    using Q P e by (intro frac_le mult_right_mono mult_pos_pos) auto
  moreover have "(2::rat) ^ 63 * (1 + e) / (1 * (1 - e)) \<le> 2 ^ 127"
    by (simp add: e_def)
  ultimately have xhi: "x \<le> 2 ^ 127"
    using xu by linarith
  define c where "c = round_mag32 x"
  have fd: "fdiv (float_of_int q) (float_of_int p) = Fin False c"
    using b0 to_float_finite [OF xlo xhi] by (simp add: fa fb c_def x_def)
  have c: "x * (1 - e) \<le> c" "c \<le> x * (1 + e)"
    using round_mag32_bounds [OF xlo] by (simp_all add: c_def e_def)
  define r where "r = Q / P"
  have r0: "0 \<le> r"
    using Q P by (simp add: r_def)
  have U: "(1 + e) * (1 + e) / (1 - e) \<le> 1 + 1 / 2 ^ 22"
    and L: "1 - 1 / 2 ^ 22 \<le> (1 - e) * (1 - e) / (1 + e)"
    by (simp_all add: e_def)
  have "x * (1 + e) \<le> Q * (1 + e) / (P * (1 - e)) * (1 + e)"
    using xu e by (intro mult_right_mono) auto
  then have "c \<le> Q * (1 + e) / (P * (1 - e)) * (1 + e)"
    using c(2) by linarith
  also have "\<dots> = r * ((1 + e) * (1 + e) / (1 - e))"
    using P e by (simp add: r_def field_simps)
  also have "\<dots> \<le> r * (1 + 1 / 2 ^ 22)"
    using U r0 by (rule mult_left_mono)
  finally have cu: "c \<le> r * (1 + 1 / 2 ^ 22)" .
  have "r * (1 - 1 / 2 ^ 22) \<le> r * ((1 - e) * (1 - e) / (1 + e))"
    using L r0 by (rule mult_left_mono)
  also have "\<dots> = Q * (1 - e) / (P * (1 + e)) * (1 - e)"
    using P e by (simp add: r_def field_simps)
  also have "\<dots> \<le> x * (1 - e)"
    using xl e by (intro mult_right_mono) auto
  also have "\<dots> \<le> c"
    by (rule c(1))
  finally have cl: "r * (1 - 1 / 2 ^ 22) \<le> c" .
  define d where "d = r / 2 ^ 22"
  have "r * (1 - 1 / 2 ^ 22) = r - d" and "r * (1 + 1 / 2 ^ 22) = r + d"
    by (simp_all add: d_def algebra_simps)
  then have "r - d \<le> c" and "c \<le> r + d"
    using cl cu by simp_all
  then have "\<bar>c - r\<bar> \<le> d"
    by linarith
  then have "\<bar>c - r\<bar> \<le> r / 2 ^ 22"
    by (simp only: d_def)
  then show ?thesis
    using fd by (auto simp: r_def Q_def P_def)
qed

subsection \<open>Printing and parsing decimal integers\<close>

lemma digit_cases: "0 \<le> d \<Longrightarrow> d < 10 \<Longrightarrow> d \<in> {0, 1, 2, 3, 4, 5, 6, 7, 8, 9 :: int}"
  by (simp add: insert_iff) presburger

lemma isdigit_digit_char: "0 \<le> d \<Longrightarrow> d < 10 \<Longrightarrow> isdigit (digit_char d)"
  using digit_cases [of d] by (auto simp: isdigit_def digit_char_def)

lemma digit_val_digit_char: "0 \<le> d \<Longrightarrow> d < 10 \<Longrightarrow> digit_val (digit_char d) = d"
  using digit_cases [of d] by (auto simp: digit_val_def digit_char_def)

lemma isdigit_not_space: "isdigit c \<Longrightarrow> \<not> isspace c"
  by (auto simp: isdigit_def isspace_def)

lemma isdigit_not_sign: "isdigit c \<Longrightarrow> c \<noteq> CHR ''-'' \<and> c \<noteq> CHR ''+''"
  by (auto simp: isdigit_def)

lemma isdigit_not_NUL: "isdigit c \<Longrightarrow> c \<noteq> NUL"
  by (auto simp: isdigit_def NUL_def)

lemma dec_digits: "0 \<le> n \<Longrightarrow> list_all isdigit (dec n)"
proof (induction n rule: dec.induct)
  case (1 n)
  show ?case
  proof (cases "n < 10")
    case True
    with 1 show ?thesis
      by (simp add: dec.simps [of n] isdigit_digit_char)
  next
    case False
    with 1 show ?thesis
      by (simp add: dec.simps [of n] isdigit_digit_char)
  qed
qed

lemma dec_nonempty: "dec n \<noteq> []"
  by (simp add: dec.simps [of n])

lemma dec_val_snoc: "dec_val (ds @ [c]) = 10 * dec_val ds + digit_val c"
  by (simp add: dec_val_def)

lemma dec_val_dec: "0 \<le> n \<Longrightarrow> dec_val (dec n) = n"
proof (induction n rule: dec.induct)
  case (1 n)
  show ?case
  proof (cases "n < 10")
    case True
    with 1 show ?thesis
      by (simp add: dec.simps [of n] dec_val_def digit_val_digit_char)
  next
    case False
    with 1 show ?thesis
      by (simp add: dec.simps [of n] dec_val_snoc digit_val_digit_char)
  qed
qed

lemma takeWhile_digits:
  "list_all isdigit ds \<Longrightarrow> no_digit_ahead r \<Longrightarrow> takeWhile isdigit (ds @ r) = ds"
  by (induction ds) (auto simp: no_digit_ahead_def split: list.splits)

lemma dropWhile_digits:
  "list_all isdigit ds \<Longrightarrow> no_digit_ahead r \<Longrightarrow> dropWhile isdigit (ds @ r) = r"
  by (induction ds) (auto simp: no_digit_ahead_def split: list.splits)

lemma scan_sign_digit: "isdigit c \<Longrightarrow> scan_sign (c # r) = (False, c # r)"
  by (simp add: scan_sign_def isdigit_not_sign)

text \<open>
  A \<^verbatim>\<open>%lld\<close> conversion reads back what was printed, after any white space, when the
  number fits a \<^verbatim>\<open>long long\<close>.
\<close>

lemma scan_lld_dec:
  assumes "0 \<le> n" and "n \<le> LLONG_MAX" and "no_digit_ahead r" and "list_all isspace ws"
  shows "scan_lld (ws @ dec n @ r) = Some (n, r)"
proof -
  obtain c cs where d: "dec n = c # cs"
    using dec_nonempty [of n] by (cases "dec n") auto
  have digs: "list_all isdigit (dec n)"
    using assms(1) by (rule dec_digits)
  then have c: "isdigit c"
    by (simp add: d)
  have "dropWhile isspace (ws @ dec n @ r) = dec n @ r"
    using assms(4) c by (induction ws) (auto simp: d isdigit_not_space)
  moreover have "scan_sign (dec n @ r) = (False, dec n @ r)"
    using scan_sign_digit [OF c] by (simp add: d)
  ultimately show ?thesis
    using takeWhile_digits [OF digs assms(3)] dropWhile_digits [OF digs assms(3)]
      dec_nonempty [of n] dec_val_dec [OF assms(1)] assms(2)
    by (simp add: scan_lld_def)
qed

subsection \<open>Reading a block in the format of \<^verbatim>\<open>/proc/meminfo\<close>\<close>

lemma takeWhile_upto: "c \<notin> set xs \<Longrightarrow> takeWhile (\<lambda>x. x \<noteq> c) (xs @ c # ys) = xs"
  by (induction xs) auto

lemma prefix_key_colon:
  assumes "CHR '':'' \<notin> set K" and "CHR '':'' \<notin> set key"
  shows "prefix (K @ '':'') (key @ '':'' @ aft) \<longleftrightarrow> key = K"
proof
  assume "prefix (K @ '':'') (key @ '':'' @ aft)"
  then obtain zs where "key @ CHR '':'' # aft = K @ CHR '':'' # zs"
    by (auto simp: prefix_def)
  then have "takeWhile (\<lambda>x. x \<noteq> CHR '':'') (key @ CHR '':'' # aft)
             = takeWhile (\<lambda>x. x \<noteq> CHR '':'') (K @ CHR '':'' # zs)"
    by simp
  then show "key = K"
    using assms by (simp add: takeWhile_upto)
next
  assume "key = K"
  then show "prefix (K @ '':'') (key @ '':'' @ aft)"
    by simp
qed

lemma strstr_key:
  assumes "CHR '':'' \<notin> set K" and "CHR '':'' \<notin> set key"
  shows "strstr (key @ '':'' @ aft) (K @ '':'') =
         (if suffix K key then Some (K @ '':'' @ aft) else strstr ('':'' @ aft) (K @ '':''))"
  using assms(2)
proof (induction key)
  case Nil
  then show ?case
    by (cases K) auto
next
  case (Cons c key)
  have p: "prefix (K @ '':'') ((c # key) @ '':'' @ aft) \<longleftrightarrow> c # key = K"
    using prefix_key_colon [OF assms(1), of "c # key" aft] Cons.prems by simp
  show ?case
  proof (cases "c # key = K")
    case True
    then show ?thesis
      using p by auto
  next
    case False
    then have "strstr ((c # key) @ '':'' @ aft) (K @ '':'') = strstr (key @ '':'' @ aft) (K @ '':'')"
      using p by simp
    then show ?thesis
      using Cons False by (auto simp: suffix_Cons)
  qed
qed

lemma strstr_skip:
  "(\<And>ys. ys \<noteq> [] \<Longrightarrow> suffix ys xs \<Longrightarrow> \<not> prefix name (ys @ rest))
   \<Longrightarrow> strstr (xs @ rest) name = strstr rest name"
proof (induction xs)
  case Nil
  then show ?case by simp
next
  case (Cons x xs)
  have "\<not> prefix name ((x # xs) @ rest)"
    using Cons.prems [of "x # xs"] by simp
  moreover have "strstr (xs @ rest) name = strstr rest name"
    using Cons.prems by (intro Cons.IH) (auto simp: suffix_Cons)
  ultimately show ?case
    by simp
qed

lemma no_match_before_newline:
  assumes "ys \<noteq> []" and "last ys = CHR 0x0A" and "CHR '':'' \<notin> set ys" and "CHR 0x0A \<notin> set K"
  shows "\<not> prefix (K @ '':'') (ys @ rest)"
proof
  assume "prefix (K @ '':'') (ys @ rest)"
  then obtain zs where "ys @ rest = K @ ('':'' @ zs)"
    by (auto simp: prefix_def)
  then obtain us where "ys = K @ us \<and> us @ rest = '':'' @ zs \<or> ys @ us = K \<and> rest = us @ '':'' @ zs"
    by (auto simp: append_eq_append_conv2)
  then show False
  proof
    assume a: "ys = K @ us \<and> us @ rest = '':'' @ zs"
    show False
    proof (cases us)
      case Nil
      then show False
        using a assms by (metis append_Nil2 last_in_set)
    next
      case (Cons u us')
      then show False
        using a assms(3) by auto
    qed
  next
    assume "ys @ us = K \<and> rest = us @ '':'' @ zs"
    then have "set ys \<subseteq> set K"
      by auto
    then show False
      using assms by (metis last_in_set subsetD)
  qed
qed


lemma suffix_last: "suffix ys xs \<Longrightarrow> ys \<noteq> [] \<Longrightarrow> last ys = last xs"
  by (auto simp: suffix_def)

lemma isdigit_not_colon: "isdigit c \<Longrightarrow> c \<noteq> CHR '':''"
  by (auto simp: isdigit_def)

lemma dec_no_colon: "0 \<le> v \<Longrightarrow> CHR '':'' \<notin> set (dec v)"
  using dec_digits [of v] isdigit_not_colon by (auto simp: list_all_iff)

lemma strstr_line:
  assumes "K \<noteq> []" and "CHR '':'' \<notin> set K" and "CHR 0x0A \<notin> set K"
    and "CHR '':'' \<notin> set key" and "0 \<le> v"
  shows "strstr (meminfo_line (key, pad, v) @ rest) (K @ '':'') =
         (if suffix K key
          then Some (K @ '':'' @ replicate pad (CHR '' '') @ dec v @ '' kB\<newline>'' @ rest)
          else strstr rest (K @ '':''))"
proof -
  define T where "T = replicate pad (CHR '' '') @ dec v @ '' kB\<newline>''"
  have line: "meminfo_line (key, pad, v) @ rest = key @ '':'' @ (T @ rest)"
    by (simp add: meminfo_line_def T_def)
  have nocolon: "CHR '':'' \<notin> set T"
    using dec_no_colon [OF assms(5)] by (auto simp: T_def)
  have lastT: "last T = CHR 0x0A"
    by (simp add: T_def)
  have "\<not> prefix (K @ '':'') ('':'' @ T @ rest)"
    using assms(1,2) by (cases K) auto
  then have colon: "strstr ('':'' @ T @ rest) (K @ '':'') = strstr (T @ rest) (K @ '':'')"
    by simp
  have skip: "strstr (T @ rest) (K @ '':'') = strstr rest (K @ '':'')"
  proof (rule strstr_skip)
    fix ys
    assume ys: "ys \<noteq> []" "suffix ys T"
    then have "last ys = CHR 0x0A"
      using suffix_last lastT by metis
    moreover have "CHR '':'' \<notin> set ys"
      using ys(2) nocolon set_mono_suffix by blast
    ultimately show "\<not> prefix (K @ '':'') (ys @ rest)"
      using no_match_before_newline ys(1) assms(3) by blast
  qed
  show ?thesis
    unfolding line strstr_key [OF assms(2) assms(4)] colon skip
    by (simp add: T_def)
qed

lemma strtoll_figure:
  assumes "0 \<le> v" and "v \<le> LLONG_MAX"
  shows "strtoll (replicate pad (CHR '' '') @ dec v @ '' kB\<newline>'' @ rest) = v"
proof -
  have "no_digit_ahead ('' kB\<newline>'' @ rest)"
    by (simp add: no_digit_ahead_def isdigit_def)
  moreover have "list_all isspace (replicate pad (CHR '' ''))"
    by (simp add: list_all_iff isspace_def)
  ultimately show ?thesis
    using scan_lld_dec [OF assms] by (simp add: strtoll_def)
qed

lemma get_entry_meminfo_text:
  assumes "K \<noteq> []" and "CHR '':'' \<notin> set K" and "CHR 0x0A \<notin> set K"
    and "list_all (\<lambda>e. CHR '':'' \<notin> set (fst e) \<and> 0 \<le> snd (snd e) \<and> snd (snd e) \<le> LLONG_MAX) es"
  shows "get_entry (K @ '':'') (meminfo_text es) = meminfo_kb K es"
  using assms(4)
proof (induction es)
  case Nil
  then show ?case
    using assms(1) by (simp add: get_entry_def meminfo_text_def meminfo_kb_def)
next
  case (Cons e es)
  obtain key pad v where e: "e = (key, pad, v)"
    by (cases e)
  have key: "CHR '':'' \<notin> set key" and v: "0 \<le> v" "v \<le> LLONG_MAX"
    using Cons.prems by (simp_all add: e)
  have mt: "meminfo_text ((key, pad, v) # es) = meminfo_line (key, pad, v) @ meminfo_text es"
    by (simp add: meminfo_text_def)
  note line = strstr_line [OF assms(1-3) key v(1), of pad "meminfo_text es"]
  show ?case
  proof (cases "suffix K key")
    case True
    then show ?thesis
      using line strtoll_figure [OF v]
      by (simp add: e mt get_entry_def meminfo_kb_def)
  next
    case False
    then have "get_entry (K @ '':'') (meminfo_text (e # es)) = get_entry (K @ '':'') (meminfo_text es)"
      using line by (simp add: e mt get_entry_def)
    then show ?thesis
      using Cons False by (simp add: meminfo_kb_def e)
  qed
qed


lemma wrap64_id: "- (2 ^ 63) \<le> x \<Longrightarrow> x < 2 ^ 63 \<Longrightarrow> wrap64 x = x"
  by (simp add: wrap64_def)

lemma cstr_id: "NUL \<notin> set xs \<Longrightarrow> cstr xs = xs"
  by (auto simp: cstr_def takeWhile_eq_all_conv)

lemma dec_no_NUL: "0 \<le> v \<Longrightarrow> NUL \<notin> set (dec v)"
  using dec_digits [of v] isdigit_not_NUL by (auto simp: list_all_iff)

lemma meminfo_line_no_NUL: "NUL \<notin> set key \<Longrightarrow> 0 \<le> v \<Longrightarrow> NUL \<notin> set (meminfo_line (key, pad, v))"
  using dec_no_NUL [of v] by (auto simp: meminfo_line_def NUL_def)

lemma meminfo_text_no_NUL:
  assumes "list_all (\<lambda>e. list_all (\<lambda>c. c \<noteq> CHR '':'' \<and> c \<noteq> CHR 0x0A \<and> c \<noteq> NUL) (fst e)
                     \<and> 0 \<le> snd (snd e) \<and> snd (snd e) < 2 ^ 50) es"
  shows "NUL \<notin> set (meminfo_text es)"
  using assms
proof (induction es)
  case Nil
  then show ?case by (simp add: meminfo_text_def)
next
  case (Cons e es)
  obtain key pad v where e: "e = (key, pad, v)"
    by (cases e)
  have "NUL \<notin> set (meminfo_line (key, pad, v))"
    using Cons.prems by (intro meminfo_line_no_NUL) (auto simp: e list_all_iff)
  then show ?case
    using Cons by (simp add: meminfo_text_def e)
qed

lemma meminfo_kb_range:
  assumes "list_all (\<lambda>e. list_all (\<lambda>c. c \<noteq> CHR '':'' \<and> c \<noteq> CHR 0x0A \<and> c \<noteq> NUL) (fst e)
                     \<and> 0 \<le> snd (snd e) \<and> snd (snd e) < 2 ^ 50) es"
  shows "0 \<le> meminfo_kb K es \<and> meminfo_kb K es < 2 ^ 50"
proof (cases "find (\<lambda>e. suffix K (fst e)) es")
  case None
  then show ?thesis
    by (simp add: meminfo_kb_def)
next
  case (Some e)
  then have "e \<in> set es"
    by (auto simp: find_Some_iff)
  then show ?thesis
    using assms Some by (auto simp: meminfo_kb_def list_all_iff)
qed

lemma get_proc_meminfo_text:
  assumes "meminfo_wf es" and "files s ''/proc/meminfo'' = Some (meminfo_text es)"
  shows "get_proc_meminfo s =
           (meminfo_kb ''MemTotal'' es * 1024,
            (meminfo_kb ''MemTotal'' es - meminfo_kb ''MemFree'' es
               - meminfo_kb ''Buffers'' es - meminfo_kb ''Cached'' es) * 1024)"
proof (cases es)
  case Nil
  then show ?thesis
    by (simp add: get_proc_meminfo_def assms(2) meminfo_text_def meminfo_kb_def fread_def)
next
  case (Cons e es')
  have all: "list_all (\<lambda>e. list_all (\<lambda>c. c \<noteq> CHR '':'' \<and> c \<noteq> CHR 0x0A \<and> c \<noteq> NUL) (fst e)
                     \<and> 0 \<le> snd (snd e) \<and> snd (snd e) < 2 ^ 50) es"
    using assms(1) by (simp add: meminfo_wf_def)
  have len: "length (meminfo_text es) \<le> 4095"
    using assms(1) by (simp add: meminfo_wf_def)
  have ne: "meminfo_text es \<noteq> []"
    by (cases e) (simp add: Cons meminfo_text_def meminfo_line_def)
  have fr: "fread 4095 (meminfo_text es) = meminfo_text es"
    using len by (simp add: fread_def)
  have buff: "cstr (meminfo_text es) = meminfo_text es"
    using meminfo_text_no_NUL [OF all] by (rule cstr_id)
  have ents: "list_all (\<lambda>e. CHR '':'' \<notin> set (fst e) \<and> 0 \<le> snd (snd e) \<and> snd (snd e) \<le> LLONG_MAX) es"
    using all by (rule list.pred_mono_strong) (auto simp: list_all_iff LLONG_MAX_def)
  have T: "get_entry ''MemTotal:'' (meminfo_text es) = meminfo_kb ''MemTotal'' es"
    using get_entry_meminfo_text [OF _ _ _ ents, of "''MemTotal''"] by simp
  have F: "get_entry ''MemFree:'' (meminfo_text es) = meminfo_kb ''MemFree'' es"
    using get_entry_meminfo_text [OF _ _ _ ents, of "''MemFree''"] by simp
  have B: "get_entry ''Buffers:'' (meminfo_text es) = meminfo_kb ''Buffers'' es"
    using get_entry_meminfo_text [OF _ _ _ ents, of "''Buffers''"] by simp
  have C: "get_entry ''Cached:'' (meminfo_text es) = meminfo_kb ''Cached'' es"
    using get_entry_meminfo_text [OF _ _ _ ents, of "''Cached''"] by simp
  note r = meminfo_kb_range [OF all, of "''MemTotal''"] meminfo_kb_range [OF all, of "''MemFree''"]
    meminfo_kb_range [OF all, of "''Buffers''"] meminfo_kb_range [OF all, of "''Cached''"]
  have "get_proc_meminfo s =
          (wrap64 (meminfo_kb ''MemTotal'' es * 1024),
           wrap64 (wrap64 (wrap64 (wrap64 (meminfo_kb ''MemTotal'' es - meminfo_kb ''MemFree'' es)
              - meminfo_kb ''Buffers'' es) - meminfo_kb ''Cached'' es) * 1024))"
    using ne by (simp add: get_proc_meminfo_def assms(2) fr buff T F B C Let_def)
  also have "\<dots> = (meminfo_kb ''MemTotal'' es * 1024,
            (meminfo_kb ''MemTotal'' es - meminfo_kb ''MemFree'' es
               - meminfo_kb ''Buffers'' es - meminfo_kb ''Cached'' es) * 1024)"
    using r by (simp add: wrap64_id)
  finally show ?thesis .
qed

lemma meminfo_example_text: "meminfo_text meminfo_example_entries = meminfo_example"
  by (simp add: meminfo_example_entries_def meminfo_text_def meminfo_line_def
      meminfo_example_def dec.simps digit_char_def numeral_eq_Suc)

lemma meminfo_example_wf: "meminfo_wf meminfo_example_entries"
  unfolding meminfo_wf_def meminfo_example_text
  by (simp add: meminfo_example_entries_def meminfo_example_def NUL_def)

lemma meminfo_example_file:
  "files meminfo_host ''/proc/meminfo'' = Some (meminfo_text meminfo_example_entries)"
  by (simp add: meminfo_host_def meminfo_example_text)

lemma meminfo_example_kb:
  "meminfo_kb ''MemTotal'' meminfo_example_entries = 2000000"
  "meminfo_kb ''MemFree'' meminfo_example_entries = 500000"
  "meminfo_kb ''Buffers'' meminfo_example_entries = 100000"
  "meminfo_kb ''Cached'' meminfo_example_entries = 400000"
  by (simp_all add: meminfo_kb_def meminfo_example_entries_def suffix_def)

subsection \<open>Reading \<^verbatim>\<open>cpu.max\<close>\<close>

lemma length_dec: "0 \<le> n \<Longrightarrow> n < 10 ^ k \<Longrightarrow> 0 < k \<Longrightarrow> length (dec n) \<le> k"
proof (induction n arbitrary: k rule: dec.induct)
  case (1 n)
  show ?case
  proof (cases "n < 10")
    case True
    then show ?thesis
      using "1.prems" by (simp add: dec.simps [of n])
  next
    case False
    then obtain j where k: "k = Suc j"
      using "1.prems" by (cases k) auto
    have "0 < j"
      using False "1.prems" k by (cases j) auto
    moreover have "n div 10 < 10 ^ j"
      using "1.prems" k by simp
    ultimately have "length (dec (n div 10)) \<le> j"
      using "1.IH" [of j] False "1.prems" by simp
    then show ?thesis
      using False by (simp add: dec.simps [of n] k)
  qed
qed

lemma length_dec_lld: "0 \<le> n \<Longrightarrow> n \<le> LLONG_MAX \<Longrightarrow> length (dec n) \<le> 19"
  by (rule length_dec) (simp_all add: LLONG_MAX_def)

lemma dec_Cons: "0 \<le> n \<Longrightarrow> \<exists>c cs. dec n = c # cs \<and> isdigit c"
  using dec_nonempty [of n] dec_digits [of n] by (cases "dec n") auto

lemma takeWhile_nonspace:
  "list_all isdigit ds \<Longrightarrow> isspace c \<Longrightarrow> takeWhile (\<lambda>c. \<not> isspace c) (ds @ c # r) = ds"
  by (induction ds) (auto simp: isdigit_not_space)

lemma scan_s63_dec:
  assumes "0 \<le> n" and "n \<le> LLONG_MAX" and "isspace c" and "list_all isspace ws"
  shows "scan_s63 (ws @ dec n @ c # r) = Some (dec n, c # r)"
proof -
  obtain d ds where d: "dec n = d # ds" "isdigit d"
    using dec_Cons [OF assms(1)] by blast
  have digs: "list_all isdigit (dec n)"
    using assms(1) by (rule dec_digits)
  have "dropWhile isspace (ws @ dec n @ c # r) = dec n @ c # r"
    using assms(4) d by (induction ws) (auto simp: isdigit_not_space)
  moreover have "takeWhile (\<lambda>c. \<not> isspace c) (dec n @ c # r) = dec n"
    using digs assms(3) by (rule takeWhile_nonspace)
  moreover have "take 63 (dec n) = dec n"
    using length_dec_lld [OF assms(1,2)] by simp
  ultimately show ?thesis
    using dec_nonempty [of n] by (simp add: scan_s63_def)
qed

lemma strtoll_dec: "0 \<le> n \<Longrightarrow> n \<le> LLONG_MAX \<Longrightarrow> strtoll (dec n) = n"
  using scan_lld_dec [of n "[]" "[]"] by (simp add: strtoll_def no_digit_ahead_def)

lemma dec_not_max: "0 \<le> n \<Longrightarrow> take 3 (dec n @ r) \<noteq> ''max''"
  using dec_Cons [of n] by (auto simp: isdigit_def)

lemma cpu_max_text_plain:
  assumes "0 \<le> q" and "q \<le> LLONG_MAX" and "0 \<le> p" and "p \<le> LLONG_MAX"
  shows "fread 63 (cpu_max_text q p) = cpu_max_text q p"
    and "cstr (cpu_max_text q p) = cpu_max_text q p"
    and "cpu_max_text q p \<noteq> []"
proof -
  have "length (cpu_max_text q p) \<le> 63"
    using length_dec_lld [OF assms(1,2)] length_dec_lld [OF assms(3,4)]
    by (simp add: cpu_max_text_def)
  then show "fread 63 (cpu_max_text q p) = cpu_max_text q p"
    by (simp add: fread_def)
  have "NUL \<notin> set (cpu_max_text q p)"
    using dec_no_NUL [OF assms(1)] dec_no_NUL [OF assms(3)]
    by (simp add: cpu_max_text_def NUL_def)
  then show "cstr (cpu_max_text q p) = cpu_max_text q p"
    by (rule cstr_id)
  show "cpu_max_text q p \<noteq> []"
    by (simp add: cpu_max_text_def)
qed

lemma sscanf_cpu_max_text:
  assumes "0 \<le> q" and "q \<le> LLONG_MAX" and "0 \<le> p" and "p \<le> LLONG_MAX"
  shows "sscanf_lld_lld (cpu_max_text q p) = (2, q, p)"
proof -
  have "scan_lld ([] @ dec q @ '' '' @ dec p @ ''\<newline>'') = Some (q, '' '' @ dec p @ ''\<newline>'')"
    using assms(1,2) by (rule scan_lld_dec) (simp_all add: no_digit_ahead_def isdigit_def)
  moreover have "scan_lld ('' '' @ dec p @ ''\<newline>'') = Some (p, ''\<newline>'')"
    using assms(3,4) by (rule scan_lld_dec) (simp_all add: no_digit_ahead_def isdigit_def isspace_def)
  ultimately show ?thesis
    by (simp add: sscanf_lld_lld_def cpu_max_text_def)
qed

lemma get_cgroup_cpu_limit_text:
  assumes "0 \<le> q" and "q \<le> LLONG_MAX" and "0 < p" and "p \<le> LLONG_MAX"
    and "files s ''/sys/fs/cgroup/cpu.max'' = Some (cpu_max_text q p)"
  shows "get_cgroup_cpu_limit s = fdiv (float_of_int q) (float_of_int p)"
proof -
  have p0: "0 \<le> p"
    using assms(3) by simp
  note plain = cpu_max_text_plain [OF assms(1,2) p0 assms(4)]
  have "\<not> strncmp_eq (cpu_max_text q p) ''max'' 3"
    using dec_not_max [OF assms(1)] by (simp add: strncmp_eq_def cpu_max_text_def)
  then show ?thesis
    using assms(3) plain(3)
    by (simp add: get_cgroup_cpu_limit_def assms(5) plain(1,2)
        sscanf_cpu_max_text [OF assms(1,2) p0 assms(4)])
qed

lemma millicores_plain:
  assumes "0 \<le> q" and "q * 1000 \<le> LLONG_MAX" and "0 < p" and "q * 1000 div p < 2 ^ 31"
  shows "millicores q p = q * 1000 div p"
proof -
  have "wrap64 (q * 1000) = q * 1000"
    using assms(1,2) by (intro wrap64_id) (simp_all add: LLONG_MAX_def)
  moreover have "c_div (q * 1000) p = q * 1000 div p"
    using assms(1,3) by (cases "q = 0") (simp_all add: c_div_def)
  moreover have "0 \<le> q * 1000 div p"
    using assms(1,3) by (simp add: pos_imp_zdiv_nonneg_iff)
  then have "wrap32 (q * 1000 div p) = q * 1000 div p"
    using assms(4) by (simp add: wrap32_def)
  ultimately show ?thesis
    by (simp add: millicores_def)
qed

lemma get_cpu_limit_millicores_text:
  assumes "0 \<le> q" and "q \<le> LLONG_MAX" and "0 < p" and "p \<le> LLONG_MAX"
    and "files s ''/sys/fs/cgroup/cpu.max'' = Some (cpu_max_text q p)"
  shows "get_cpu_limit_millicores s = Returns (millicores q p)"
proof -
  have p0: "0 \<le> p"
    using assms(3) by simp
  have "scan_s63 ([] @ dec q @ CHR '' '' # dec p @ ''\<newline>'') = Some (dec q, CHR '' '' # dec p @ ''\<newline>'')"
    using assms(1,2) by (rule scan_s63_dec) (simp_all add: isspace_def)
  then have one: "scan_s63 (cpu_max_text q p) = Some (dec q, '' '' @ dec p @ ''\<newline>'')"
    by (simp add: cpu_max_text_def)
  have "scan_s63 ('' '' @ dec p @ CHR 0x0A # []) = Some (dec p, CHR 0x0A # [])"
    using p0 assms(4) by (rule scan_s63_dec) (simp_all add: isspace_def)
  then have two: "scan_s63 (CHR '' '' # dec p @ ''\<newline>'') = Some (dec p, ''\<newline>'')"
    by simp
  have cq: "cstr (dec q) = dec q" and cp: "cstr (dec p) = dec p"
    using dec_no_NUL [OF assms(1)] dec_no_NUL [OF p0] by (simp_all add: cstr_id)
  have nm: "dec q \<noteq> ''max''"
    using dec_not_max [OF assms(1), of "[]"] by auto
  show ?thesis
    using assms(3) nm
    by (simp add: get_cpu_limit_millicores_def assms(5) one two cq cp atoll_def
        strtoll_dec [OF assms(1,2)] strtoll_dec [OF p0 assms(4)] Let_def)
qed

section \<open>The claims\<close>

subsection \<open>Memory\<close>




text \<open>
  C10. When a bounded positive cgroup memory limit exists but \<^verbatim>\<open>memory.current\<close> cannot
  be opened or read, or its value is negative, \<^verbatim>\<open>get_memory_used_bytes\<close> returns the
  used bytes computed from \<^verbatim>\<open>/proc/meminfo\<close>.
\<close>

theorem used_bytes_fallback:
  assumes "is_container_env s"
    and "files s ''/sys/fs/cgroup/memory.current'' = None
         \<or> read_cgroup_value s ''/sys/fs/cgroup/memory.current'' < 0"
  shows "get_memory_used_bytes s = snd (get_proc_meminfo s)"
proof -
  have "read_cgroup_value s ''/sys/fs/cgroup/memory.current'' < 0"
    using assms(2) by (auto simp: read_cgroup_value_def)
  then show ?thesis
    by (simp add: get_memory_used_bytes_def)
qed

theorem used_bytes_fallback_witness:
  "is_container_env container_no_current
   \<and> files container_no_current ''/sys/fs/cgroup/memory.current'' = None
   \<and> get_memory_used_bytes container_no_current = 1000000 * 1024"
proof -
  have c: "is_container_env container_no_current"
    by code_simp
  have n: "files container_no_current ''/sys/fs/cgroup/memory.current'' = None"
    by (simp add: container_no_current_def)
  have "files container_no_current ''/proc/meminfo'' = Some (meminfo_text meminfo_example_entries)"
    by (simp add: container_no_current_def meminfo_example_text)
  then have m: "snd (get_proc_meminfo container_no_current) = 1000000 * 1024"
    using get_proc_meminfo_text [OF meminfo_example_wf] by (simp add: meminfo_example_kb)
  from used_bytes_fallback [of container_no_current] c n m show ?thesis
    by simp
qed

text \<open>
  C4. \<^verbatim>\<open>is_container_env\<close> is true exactly when reading \<^verbatim>\<open>/sys/fs/cgroup/memory.max\<close>
  yields a positive value, which needs the file to exist and not to start with \<^verbatim>\<open>max\<close>.
  No other file changes the answer: on a host without that file it is false whatever
  \<^verbatim>\<open>cpu.max\<close> or any other path holds.
\<close>

theorem container_env_iff_memory_limit:
  "(is_container_env s \<longleftrightarrow> 0 < read_cgroup_value s ''/sys/fs/cgroup/memory.max'')
   \<and> (is_container_env s \<longrightarrow>
        (\<exists>content. files s ''/sys/fs/cgroup/memory.max'' = Some content \<and> \<not> prefix ''max'' content))
   \<and> (files s ''/sys/fs/cgroup/memory.max'' = None \<longrightarrow> \<not> is_container_env s)
   \<and> (p \<noteq> ''/sys/fs/cgroup/memory.max'' \<longrightarrow>
        is_container_env (s\<lparr>files := (files s)(p := v)\<rparr>) = is_container_env s)"
proof -
  have "\<not> 0 < read_cgroup_value s ''/sys/fs/cgroup/memory.max''"
    if f: "files s ''/sys/fs/cgroup/memory.max'' = Some content" and p: "prefix ''max'' content"
    for content
  proof -
    obtain zs where "content = ''max'' @ zs"
      using p by (auto simp: prefix_def)
    then show ?thesis
      using f by (simp add: read_cgroup_value_def fread_def cstr_def NUL_def strncmp_eq_def)
  qed
  moreover have "\<not> 0 < read_cgroup_value s ''/sys/fs/cgroup/memory.max''"
    if "files s ''/sys/fs/cgroup/memory.max'' = None"
    using that by (simp add: read_cgroup_value_def)
  ultimately show ?thesis
    by (cases "files s ''/sys/fs/cgroup/memory.max''")
      (auto simp: is_container_env_def has_cgroup_memory_limit_def read_cgroup_value_def)
qed

theorem container_env_iff_memory_limit_witness:
  "files cpu_bounded ''/sys/fs/cgroup/memory.max'' = None
   \<and> files cpu_bounded ''/sys/fs/cgroup/cpu.max'' = Some ''150000 100000\<newline>''
   \<and> \<not> is_container_env cpu_bounded
   \<and> is_container_env container_idle
   \<and> is_container_env (container_idle\<lparr>files := (files container_idle)(''/sys/fs/cgroup/cpu.max'' := None)\<rparr>)"
proof -
  have a: "files cpu_bounded ''/sys/fs/cgroup/memory.max'' = None"
    and b: "files cpu_bounded ''/sys/fs/cgroup/cpu.max'' = Some ''150000 100000\<newline>''"
    by (simp_all add: cpu_bounded_def)
  have c: "0 < read_cgroup_value container_idle ''/sys/fs/cgroup/memory.max''"
    by code_simp
  have d: "\<not> is_container_env cpu_bounded"
    using container_env_iff_memory_limit [of cpu_bounded] a by blast
  have e: "is_container_env container_idle"
    using container_env_iff_memory_limit [of container_idle] c by blast
  have "is_container_env (container_idle\<lparr>files := (files container_idle)(''/sys/fs/cgroup/cpu.max'' := None)\<rparr>)"
    using container_env_iff_memory_limit [of container_idle "''/sys/fs/cgroup/cpu.max''" None] e
    by simp
  then show ?thesis
    using a b d e by simp
qed

subsection \<open>CPU\<close>

text \<open>
  C3. When \<^verbatim>\<open>SYSRES_CPU_CORES\<close> is set and \<^verbatim>\<open>strtof\<close> reads a value greater than zero
  from it, \<^verbatim>\<open>get_cpu_limit_cores\<close> returns that value, whatever the cgroup file and the
  host core count are.
\<close>

theorem env_override_wins:
  assumes "environ s ''SYSRES_CPU_CORES'' = Some v" and "fgt (strtof v) fzero"
  shows "get_cpu_limit_cores s = strtof v"
  using assms fgt_not_fle [of "strtof v"]
  by (simp add: get_cpu_limit_cores_def get_env_cpu_limit_def)

theorem env_override_wins_witness:
  "environ (with_override ''2.5'') ''SYSRES_CPU_CORES'' = Some ''2.5''
   \<and> fgt (strtof ''2.5'') fzero
   \<and> get_cgroup_cpu_limit (with_override ''2.5'') = Fin False (3 / 2)
   \<and> nprocs (with_override ''2.5'') = 8
   \<and> get_cpu_limit_cores (with_override ''2.5'') = Fin False (5 / 2)"
proof -
  have e: "environ (with_override ''2.5'') ''SYSRES_CPU_CORES'' = Some ''2.5''"
    by (simp add: with_override_def)
  have v: "strtof ''2.5'' = Fin False (5 / 2)"
    by code_simp
  have g: "fgt (strtof ''2.5'') fzero"
    by (simp add: v fzero_def fval_def)
  have c: "get_cgroup_cpu_limit (with_override ''2.5'') = Fin False (3 / 2)"
    by code_simp
  have n: "nprocs (with_override ''2.5'') = 8"
    by (simp add: with_override_def cpu_bounded_def bare_host_def)
  show ?thesis
    using env_override_wins [OF e g] e g c n by (simp add: v)
qed

text \<open>
  C8, as amended. When \<^verbatim>\<open>SYSRES_CPU_CORES\<close> is \<^verbatim>\<open>"0"\<close>, \<^verbatim>\<open>"-1"\<close> or a string from which
  \<^verbatim>\<open>strtof\<close> converts nothing (such as \<^verbatim>\<open>"abc"\<close> or the empty string), the override reader
  returns its "not set" value and \<^verbatim>\<open>get_cpu_limit_cores\<close> is what it is without the
  variable: the cgroup limit when that is greater than zero, the host core count
  otherwise. A string that is not a number but from which \<^verbatim>\<open>strtof\<close> converts one is not
  ignored.
\<close>

theorem invalid_override_ignored:
  assumes "environ s ''SYSRES_CPU_CORES'' = Some v"
    and "v = ''0'' \<or> v = ''-1'' \<or> strtof_conv v = None"
  shows "get_env_cpu_limit s = fminus1
         \<and> get_cpu_limit_cores s =
             get_cpu_limit_cores (s\<lparr>environ := (environ s)(''SYSRES_CPU_CORES'' := None)\<rparr>)
         \<and> get_cpu_limit_cores s =
             (if fgt (get_cgroup_cpu_limit s) fzero then get_cgroup_cpu_limit s
              else float_of_int (nprocs s))"
proof -
  have z: "strtof ''0'' = Fin False 0" and m: "strtof ''-1'' = Fin True 1"
    by code_simp+
  have "strtof v = fzero" if "strtof_conv v = None"
    using that by (simp add: strtof_def)
  then have "fle (strtof v) fzero"
    using assms(2) z m by (auto simp: fzero_def fval_def)
  then have e: "get_env_cpu_limit s = fminus1"
    using assms(1) by (simp add: get_env_cpu_limit_def)
  have u: "get_env_cpu_limit (s\<lparr>environ := (environ s)(''SYSRES_CPU_CORES'' := None)\<rparr>) = fminus1"
    by (simp add: get_env_cpu_limit_def)
  have c: "get_cgroup_cpu_limit (s\<lparr>environ := (environ s)(''SYSRES_CPU_CORES'' := None)\<rparr>)
           = get_cgroup_cpu_limit s"
    by (simp add: get_cgroup_cpu_limit_def)
  have n: "\<not> fgt fminus1 fzero"
    by (simp add: fminus1_def fzero_def fval_def)
  show ?thesis
    using n by (simp add: get_cpu_limit_cores_def e u c)
qed

theorem invalid_override_ignored_witness:
  "strtof_conv ''abc'' = None
   \<and> strtof_conv [] = None
   \<and> get_cpu_limit_cores (with_override []) = Fin False (3 / 2)
   \<and> get_cpu_limit_cores (with_override ''0'') = Fin False (3 / 2)
   \<and> get_cpu_limit_cores (with_override ''-1'') = Fin False (3 / 2)
   \<and> get_cpu_limit_cores (with_override ''abc'') = Fin False (3 / 2)"
proof -
  have a: "strtof_conv ''abc'' = None" and n: "strtof_conv [] = None"
    by code_simp+
  have e: "environ (with_override v) ''SYSRES_CPU_CORES'' = Some v" for v
    by (simp add: with_override_def)
  have c: "get_cgroup_cpu_limit (with_override v) = Fin False (3 / 2)" for v
  proof -
    have "get_cgroup_cpu_limit (with_override v) = get_cgroup_cpu_limit cpu_bounded"
      by (simp add: get_cgroup_cpu_limit_def with_override_def)
    also have "\<dots> = Fin False (3 / 2)"
      by code_simp
    finally show ?thesis .
  qed
  have g: "fgt (Fin False (3 / 2)) fzero"
    by (simp add: fzero_def fval_def)
  note t = invalid_override_ignored [THEN conjunct2, THEN conjunct2]
  have "get_cpu_limit_cores (with_override ''0'') = Fin False (3 / 2)"
    using t [OF e [of "''0''"] disjI1 [OF refl]] g by (simp add: c)
  moreover have "get_cpu_limit_cores (with_override ''-1'') = Fin False (3 / 2)"
    using t [OF e [of "''-1''"] disjI2 [OF disjI1 [OF refl]]] g by (simp add: c)
  moreover have "get_cpu_limit_cores (with_override ''abc'') = Fin False (3 / 2)"
    using t [OF e [of "''abc''"] disjI2 [OF disjI2 [OF a]]] g by (simp add: c)
  moreover have "get_cpu_limit_cores (with_override []) = Fin False (3 / 2)"
    using t [OF e [of "[]"] disjI2 [OF disjI2 [OF n]]] g by (simp add: c)
  ultimately show ?thesis
    using a n by simp
qed

text \<open>
  The strings \<^verbatim>\<open>"infinity"\<close> and \<^verbatim>\<open>"2x"\<close> are not numbers, yet \<^verbatim>\<open>strtof\<close> converts
  \<open>+\<infinity>\<close> from the first and \<open>2\<close> from the start of the second: the override is taken,
  where the state without the variable resolves to the cgroup limit \<open>1.5\<close>.
\<close>

theorem nonnumeric_override_counterexample:
  "environ (with_override ''infinity'') ''SYSRES_CPU_CORES'' = Some ''infinity''
   \<and> get_env_cpu_limit (with_override ''infinity'') = Infty False
   \<and> get_cpu_limit_cores (with_override ''infinity'') = Infty False
   \<and> environ (with_override ''2x'') ''SYSRES_CPU_CORES'' = Some ''2x''
   \<and> get_cpu_limit_cores (with_override ''2x'') = Fin False 2
   \<and> environ cpu_bounded ''SYSRES_CPU_CORES'' = None
   \<and> files cpu_bounded = files (with_override ''infinity'')
   \<and> files cpu_bounded = files (with_override ''2x'')
   \<and> get_cpu_limit_cores cpu_bounded = Fin False (3 / 2)"
proof -
  have "get_env_cpu_limit (with_override ''infinity'') = Infty False"
    by code_simp
  moreover have "get_cpu_limit_cores (with_override ''infinity'') = Infty False"
    by code_simp
  moreover have "get_cpu_limit_cores (with_override ''2x'') = Fin False 2"
    by code_simp
  moreover have "get_cpu_limit_cores cpu_bounded = Fin False (3 / 2)"
    by code_simp
  ultimately show ?thesis
    by (simp add: with_override_def cpu_bounded_def bare_host_def)
qed

text \<open>
  C6. \<^verbatim>\<open>get_cpu_load\<close> divides the load average by the resolved CPU limit, replaced by the
  host core count when that limit is not greater than zero. On a host that reports at
  least one processor the divisor is greater than zero, hence never a zero; the resolved
  limit itself already is, so the replacement does not happen.
\<close>

theorem cpu_load_divisor_nonzero:
  assumes "0 < nprocs s"
  shows "get_cpu_load s =
           fdiv (float_of_double (case loadavg s of None \<Rightarrow> 0 | Some l \<Rightarrow> l)) (cpu_load_divisor s)
         \<and> cpu_load_divisor s =
             (if fle (get_cpu_limit_cores s) fzero then float_of_int (nprocs s)
              else get_cpu_limit_cores s)
         \<and> fgt (cpu_load_divisor s) fzero
         \<and> cpu_load_divisor s \<noteq> Fin False 0 \<and> cpu_load_divisor s \<noteq> Fin True 0
         \<and> cpu_load_divisor s = get_cpu_limit_cores s"
proof -
  have n: "fgt (float_of_int (nprocs s)) fzero"
    using assms by (rule float_of_int_pos)
  then have l: "fgt (get_cpu_limit_cores s) fzero"
    by (simp add: get_cpu_limit_cores_def Let_def)
  then have d: "cpu_load_divisor s = get_cpu_limit_cores s"
    using fgt_not_fle by (simp add: cpu_load_divisor_def)
  have "get_cpu_load s =
          fdiv (float_of_double (case loadavg s of None \<Rightarrow> 0 | Some l \<Rightarrow> l)) (cpu_load_divisor s)"
    by (simp add: get_cpu_load_def)
  moreover have "cpu_load_divisor s =
             (if fle (get_cpu_limit_cores s) fzero then float_of_int (nprocs s)
              else get_cpu_limit_cores s)"
    by (simp add: cpu_load_divisor_def)
  moreover have "fgt (cpu_load_divisor s) fzero"
    using l by (simp only: d)
  moreover have "cpu_load_divisor s \<noteq> Fin False 0" and "cpu_load_divisor s \<noteq> Fin True 0"
    using fgt_zero_not_zero [OF l] by (simp_all only: d not_False_eq_True)
  ultimately show ?thesis
    using d by blast
qed

theorem cpu_load_divisor_nonzero_witness:
  "0 < nprocs cpu_unbounded
   \<and> get_cgroup_cpu_limit cpu_unbounded = fminus1
   \<and> cpu_load_divisor cpu_unbounded = Fin False 8
   \<and> get_cpu_load cpu_unbounded = Fin False (3 / 16)"
proof -
  have n: "0 < nprocs cpu_unbounded"
    by (simp add: cpu_unbounded_def bare_host_def)
  have c: "get_cgroup_cpu_limit cpu_unbounded = fminus1"
    by code_simp
  have l: "get_cpu_limit_cores cpu_unbounded = Fin False 8"
    by code_simp
  have f: "fdiv (float_of_double (3 / 2)) (Fin False 8) = Fin False (3 / 16)"
    by code_simp
  have a: "loadavg cpu_unbounded = Some (3 / 2)"
    by (simp add: cpu_unbounded_def bare_host_def)
  note t = cpu_load_divisor_nonzero [OF n]
  have d: "cpu_load_divisor cpu_unbounded = Fin False 8"
    using t [THEN conjunct2, THEN conjunct2, THEN conjunct2, THEN conjunct2, THEN conjunct2]
    by (simp only: l)
  have "get_cpu_load cpu_unbounded = Fin False (3 / 16)"
    using t [THEN conjunct1] by (simp add: d a f)
  then show ?thesis
    using n c d by simp
qed

text \<open>
  C5, as amended. When \<^verbatim>\<open>cpu.max\<close> holds \<^verbatim>\<open>quota period\<close> with \<open>0 \<le> quota\<close> and
  \<open>0 < period\<close>, both in the range of a \<^verbatim>\<open>long long\<close>, the limit read by
  \<^verbatim>\<open>get_cgroup_cpu_limit\<close> is \<open>quota / period\<close> up to a relative error of \<open>2 powi (- 22)\<close>
  (three roundings to \<^verbatim>\<open>float\<close>); it is the resolved limit when there is no override
  and the quota is positive. \<^verbatim>\<open>get_cpu_limit_millicores\<close> returns
  \<open>\<lfloor>quota * 1000 / period\<rfloor>\<close> when \<open>quota * 1000\<close> fits a \<^verbatim>\<open>long long\<close> and the result
  an \<^verbatim>\<open>int32_t\<close>.
\<close>

theorem cpu_limit_quota_over_period:
  assumes "0 \<le> quota" and "quota \<le> LLONG_MAX" and "0 < period" and "period \<le> LLONG_MAX"
    and "files s ''/sys/fs/cgroup/cpu.max'' = Some (cpu_max_text quota period)"
  shows "(\<exists>c. get_cgroup_cpu_limit s = Fin False c
              \<and> \<bar>c - of_int quota / of_int period\<bar> \<le> (of_int quota / of_int period) / 2 ^ 22)
         \<and> (environ s ''SYSRES_CPU_CORES'' = None \<and> 0 < quota \<longrightarrow>
              get_cpu_limit_cores s = get_cgroup_cpu_limit s)
         \<and> (quota * 1000 \<le> LLONG_MAX \<and> quota * 1000 div period < 2 ^ 31 \<longrightarrow>
              get_cpu_limit_millicores s = Returns \<lfloor>(of_int (quota * 1000) :: rat) / of_int period\<rfloor>)"
proof -
  have l: "get_cgroup_cpu_limit s = fdiv (float_of_int quota) (float_of_int period)"
    using assms by (rule get_cgroup_cpu_limit_text)
  have "quota \<le> 2 ^ 63" and "1 \<le> period" and "period \<le> 2 ^ 63"
    using assms(2,3,4) by (simp_all add: LLONG_MAX_def)
  then obtain c where c: "get_cgroup_cpu_limit s = Fin False c"
    and e: "\<bar>c - of_int quota / of_int period\<bar> \<le> (of_int quota / of_int period) / 2 ^ 22"
    using fdiv_int_error [OF assms(1)] l by metis
  have "get_cpu_limit_cores s = get_cgroup_cpu_limit s"
    if "environ s ''SYSRES_CPU_CORES'' = None" and "0 < quota"
  proof -
    define r :: rat where "r = of_int quota / of_int period"
    have "0 < r"
      using that(2) assms(3) by (simp add: r_def)
    moreover have "r - r / 2 ^ 22 \<le> c"
      using e unfolding r_def [symmetric] by linarith
    moreover have "0 < r - r / 2 ^ 22"
      using \<open>0 < r\<close> by (simp add: field_simps)
    ultimately have "fgt (get_cgroup_cpu_limit s) fzero"
      by (simp add: c fzero_def fval_def)
    moreover have "\<not> fgt fminus1 fzero"
      by (simp add: fminus1_def fzero_def fval_def)
    ultimately show ?thesis
      using that(1) by (simp add: get_cpu_limit_cores_def get_env_cpu_limit_def)
  qed
  moreover have "get_cpu_limit_millicores s = Returns \<lfloor>(of_int (quota * 1000) :: rat) / of_int period\<rfloor>"
    if "quota * 1000 \<le> LLONG_MAX" and "quota * 1000 div period < 2 ^ 31"
    using get_cpu_limit_millicores_text [OF assms] millicores_plain [OF assms(1) that(1) assms(3) that(2)]
    by (simp only: floor_divide_of_int_eq)
  ultimately show ?thesis
    using c e by blast
qed

theorem cpu_limit_quota_over_period_witness:
  "files cpu_bounded ''/sys/fs/cgroup/cpu.max'' = Some (cpu_max_text 150000 100000)
   \<and> cpu_max_text 150000 100000 = ''150000 100000\<newline>''
   \<and> get_cgroup_cpu_limit cpu_bounded = Fin False (3 / 2)
   \<and> get_cpu_limit_cores cpu_bounded = Fin False (3 / 2)
   \<and> get_cpu_limit_millicores cpu_bounded = Returns 1500"
proof -
  have t: "cpu_max_text 150000 100000 = ''150000 100000\<newline>''"
    by (simp add: cpu_max_text_def dec.simps digit_char_def)
  have f: "files cpu_bounded ''/sys/fs/cgroup/cpu.max'' = Some (cpu_max_text 150000 100000)"
    by (simp add: t cpu_bounded_def)
  have n: "environ cpu_bounded ''SYSRES_CPU_CORES'' = None"
    by (simp add: cpu_bounded_def bare_host_def)
  have l: "get_cgroup_cpu_limit cpu_bounded = Fin False (3 / 2)"
    by code_simp
  note w = cpu_limit_quota_over_period [of 150000 100000 cpu_bounded, OF _ _ _ _ f]
  have "get_cpu_limit_cores cpu_bounded = get_cgroup_cpu_limit cpu_bounded"
    using w n by (simp add: LLONG_MAX_def)
  moreover have "get_cpu_limit_millicores cpu_bounded = Returns 1500"
    using w by (simp add: LLONG_MAX_def)
  ultimately show ?thesis
    using t f l by simp
qed

text \<open>
  Outside those bounds the millicore figure is not the floor: a quota of 3000000000 with
  a period of 1000 does not fit the \<^verbatim>\<open>int32_t\<close> result, and a negative quota is
  divided with truncation towards zero.
\<close>

theorem millicores_floor_counterexample:
  "files cpu_huge_quota ''/sys/fs/cgroup/cpu.max'' = Some ''3000000000 1000\<newline>''
   \<and> get_cpu_limit_millicores cpu_huge_quota = Returns (- 1294967296)
   \<and> \<lfloor>(3000000000 * 1000 :: rat) / 1000\<rfloor> = 3000000000
   \<and> files cpu_negative_quota ''/sys/fs/cgroup/cpu.max'' = Some ''-1 3\<newline>''
   \<and> get_cpu_limit_millicores cpu_negative_quota = Returns (- 333)
   \<and> \<lfloor>(- 1 * 1000 :: rat) / 3\<rfloor> = - 334"
proof -
  have "get_cpu_limit_millicores cpu_huge_quota = Returns (- 1294967296)"
    by code_simp
  moreover have "get_cpu_limit_millicores cpu_negative_quota = Returns (- 333)"
    by code_simp
  moreover have "\<lfloor>(- 1 * 1000 :: rat) / 3\<rfloor> = - 334"
    by (simp add: floor_unique)
  ultimately show ?thesis
    by (simp add: cpu_huge_quota_def cpu_negative_quota_def)
qed

subsection \<open>The usage ratio\<close>

lemma get_memory_usage_zero_used:
  assumes "0 < get_memory_limit_bytes s" and "get_memory_used_bytes s = 0"
  shows "get_memory_usage s = fzero"
proof -
  have "(1::rat) \<le> of_int (get_memory_limit_bytes s)"
    using assms(1) by simp
  then have "fdiv fzero (float_of_int (get_memory_limit_bytes s)) = fzero"
    using fdiv_zero_pos [of "of_int (get_memory_limit_bytes s)"] assms(1)
    by (simp add: float_of_int_def)
  then show ?thesis
    using assms by (simp add: get_memory_usage_def float_of_int_zero)
qed

text \<open>
  C1, as amended. When the resolved memory limit is not positive, \<^verbatim>\<open>get_memory_usage\<close>
  returns the \<^verbatim>\<open>float\<close> \<open>0.0\<close>; it returns the same value when the limit is positive
  and no byte is used.
\<close>

theorem memory_usage_without_limit:
  "(get_memory_limit_bytes s \<le> 0 \<longrightarrow> get_memory_usage s = fzero)
   \<and> (0 < get_memory_limit_bytes s \<and> get_memory_used_bytes s = 0 \<longrightarrow> get_memory_usage s = fzero)"
  using get_memory_usage_zero_used [of s] by (simp add: get_memory_usage_def)

theorem memory_usage_without_limit_witness:
  "get_memory_limit_bytes bare_host = 0
   \<and> get_memory_usage bare_host = Fin False 0
   \<and> get_memory_limit_bytes container_idle = 1073741824
   \<and> get_memory_used_bytes container_idle = 0
   \<and> get_memory_usage container_idle = Fin False 0"
proof -
  have a: "get_memory_limit_bytes bare_host = 0"
    by code_simp
  have b: "get_memory_limit_bytes container_idle = 1073741824"
    by code_simp
  have c: "get_memory_used_bytes container_idle = 0"
    by code_simp
  show ?thesis
    using memory_usage_without_limit [of bare_host] memory_usage_without_limit [of container_idle]
    by (simp add: a b c fzero_def)
qed

text \<open>
  The result for a host without any limit data is the literal \<open>0.0\<close>, the very value
  returned for a container that uses no memory: nothing tells the two apart.
\<close>

theorem memory_usage_unknown_counterexample:
  "get_memory_limit_bytes bare_host \<le> 0
   \<and> get_memory_usage bare_host = fzero
   \<and> 0 < get_memory_limit_bytes container_idle
   \<and> get_memory_usage container_idle = get_memory_usage bare_host"
proof -
  have "get_memory_limit_bytes bare_host = 0"
    by code_simp
  moreover have "get_memory_limit_bytes container_idle = 1073741824"
    by code_simp
  moreover have "get_memory_usage bare_host = fzero"
    by code_simp
  moreover have "get_memory_usage container_idle = fzero"
    by code_simp
  ultimately show ?thesis
    by simp
qed

text \<open>
  C9, as amended. Outside a container, when \<^verbatim>\<open>/proc/meminfo\<close> is a well-formed block
  with a positive \<^verbatim>\<open>MemTotal\<close>, reports neither buffers nor cache, and agrees with
  \<^verbatim>\<open>sysinfo\<close> (\<open>totalram * mem_unit\<close> and \<open>freeram * mem_unit\<close> are \<^verbatim>\<open>MemTotal\<close> and
  \<^verbatim>\<open>MemFree\<close> in bytes), the two implementations of \<^verbatim>\<open>get_memory_usage\<close> return the
  same value.
\<close>

theorem memory_usage_implementations_agree:
  assumes "\<not> is_container_env s"
    and "meminfo_wf es" and "files s ''/proc/meminfo'' = Some (meminfo_text es)"
    and "0 < meminfo_kb ''MemTotal'' es"
    and "meminfo_kb ''Buffers'' es = 0" and "meminfo_kb ''Cached'' es = 0"
    and "totalram s * mem_unit s = meminfo_kb ''MemTotal'' es * 1024"
    and "freeram s * mem_unit s = meminfo_kb ''MemFree'' es * 1024"
  shows "get_memory_usage s = get_memory_usage_tools s"
proof -
  define T where "T = meminfo_kb ''MemTotal'' es"
  define F where "F = meminfo_kb ''MemFree'' es"
  have all: "list_all (\<lambda>e. list_all (\<lambda>c. c \<noteq> CHR '':'' \<and> c \<noteq> CHR 0x0A \<and> c \<noteq> NUL) (fst e)
                     \<and> 0 \<le> snd (snd e) \<and> snd (snd e) < 2 ^ 50) es"
    using assms(2) by (simp add: meminfo_wf_def)
  have T: "0 < T" "T < 2 ^ 50" and F: "0 \<le> F" "F < 2 ^ 50"
    using assms(4) meminfo_kb_range [OF all, of "''MemTotal''"]
      meminfo_kb_range [OF all, of "''MemFree''"] by (simp_all add: T_def F_def)
  have m: "get_proc_meminfo s = (T * 1024, (T - F) * 1024)"
    using get_proc_meminfo_text [OF assms(2,3)] by (simp add: assms(5,6) T_def F_def)
  have nc: "\<not> 0 < read_cgroup_value s ''/sys/fs/cgroup/memory.max''"
    using assms(1) by (simp add: is_container_env_def has_cgroup_memory_limit_def)
  have lim: "get_memory_limit_bytes s = T * 1024"
    using nc by (simp add: get_memory_limit_bytes_def m)
  have used: "get_memory_used_bytes s = (T - F) * 1024"
    using nc by (simp add: get_memory_used_bytes_def has_cgroup_memory_limit_def m)
  have "(totalram s - freeram s) * mem_unit s = (T - F) * 1024"
    using assms(7,8) by (simp add: T_def F_def algebra_simps)
  moreover have "wrap64 ((T - F) * 1024) = (T - F) * 1024" and "wrap64 (T * 1024) = T * 1024"
    using T F by (simp_all add: wrap64_id)
  ultimately have "get_memory_usage_tools s = fdiv (float_of_int ((T - F) * 1024)) (float_of_int (T * 1024))"
    using assms(7) by (simp add: get_memory_usage_tools_def T_def)
  moreover have "get_memory_usage s = fdiv (float_of_int ((T - F) * 1024)) (float_of_int (T * 1024))"
    using T by (simp add: get_memory_usage_def lim used Let_def)
  ultimately show ?thesis
    by simp
qed

lemma plain_entries_wf: "meminfo_wf plain_entries"
  by (simp add: meminfo_wf_def plain_entries_def meminfo_text_def meminfo_line_def
      dec.simps digit_char_def NUL_def)

theorem memory_usage_implementations_agree_witness:
  "\<not> is_container_env plain_host
   \<and> meminfo_wf plain_entries
   \<and> files plain_host ''/proc/meminfo'' = Some (meminfo_text plain_entries)
   \<and> totalram plain_host * mem_unit plain_host = 2000000 * 1024
   \<and> freeram plain_host * mem_unit plain_host = 500000 * 1024
   \<and> get_memory_usage plain_host = get_memory_usage_tools plain_host
   \<and> get_memory_usage_tools plain_host = Fin False (3 / 4)"
proof -
  have c: "\<not> is_container_env plain_host"
    by (simp add: is_container_env_def has_cgroup_memory_limit_def read_cgroup_value_def
        plain_host_def)
  have f: "files plain_host ''/proc/meminfo'' = Some (meminfo_text plain_entries)"
    by (simp add: plain_host_def)
  have k: "meminfo_kb ''MemTotal'' plain_entries = 2000000"
    "meminfo_kb ''MemFree'' plain_entries = 500000"
    "meminfo_kb ''Buffers'' plain_entries = 0"
    "meminfo_kb ''Cached'' plain_entries = 0"
    by (simp_all add: meminfo_kb_def plain_entries_def suffix_def)
  have t: "totalram plain_host * mem_unit plain_host = 2000000 * 1024"
    and r: "freeram plain_host * mem_unit plain_host = 500000 * 1024"
    by (simp_all add: plain_host_def bare_host_def)
  have v: "get_memory_usage_tools plain_host = Fin False (3 / 4)"
  proof -
    have "get_memory_usage_tools plain_host = get_memory_usage_tools bare_host"
      by (simp add: get_memory_usage_tools_def plain_host_def)
    also have "\<dots> = Fin False (3 / 4)"
      by code_simp
    finally show ?thesis .
  qed
  have "get_memory_usage plain_host = get_memory_usage_tools plain_host"
    using c plain_entries_wf f by (rule memory_usage_implementations_agree) (simp_all add: k t r)
  then show ?thesis
    using c plain_entries_wf f t r v by simp
qed

text \<open>
  With buffers and cache in \<^verbatim>\<open>/proc/meminfo\<close> the two differ on one and the same host:
  the library subtracts them, the older implementation does not.
\<close>

theorem memory_usage_implementations_counterexample:
  "files meminfo_host ''/proc/meminfo'' = Some meminfo_example
   \<and> totalram meminfo_host * mem_unit meminfo_host = 2000000 * 1024
   \<and> freeram meminfo_host * mem_unit meminfo_host = 500000 * 1024
   \<and> get_memory_usage meminfo_host = Fin False (1 / 2)
   \<and> get_memory_usage_tools meminfo_host = Fin False (3 / 4)
   \<and> get_memory_usage meminfo_host \<noteq> get_memory_usage_tools meminfo_host"
proof -
  have m: "get_proc_meminfo meminfo_host = (2048000000, 1024000000)"
    using get_proc_meminfo_text [OF meminfo_example_wf meminfo_example_file]
    by (simp add: meminfo_example_kb)
  have nc: "read_cgroup_value meminfo_host ''/sys/fs/cgroup/memory.max'' = - 1"
    by (simp add: read_cgroup_value_def meminfo_host_def)
  have d: "fdiv (float_of_int 1024000000) (float_of_int 2048000000) = Fin False (1 / 2)"
    by code_simp
  have a: "get_memory_usage meminfo_host = Fin False (1 / 2)"
    by (simp add: get_memory_usage_def get_memory_limit_bytes_def get_memory_used_bytes_def
        has_cgroup_memory_limit_def nc m d)
  have "get_memory_usage_tools meminfo_host = get_memory_usage_tools bare_host"
    by (simp add: get_memory_usage_tools_def meminfo_host_def)
  also have "\<dots> = Fin False (3 / 4)"
    by code_simp
  finally have b: "get_memory_usage_tools meminfo_host = Fin False (3 / 4)" .
  show ?thesis
    by (simp add: a b) (simp add: meminfo_host_def bare_host_def)
qed

subsection \<open>An unbounded CPU quota\<close>

lemma get_cgroup_cpu_limit_max:
  assumes "files s ''/sys/fs/cgroup/cpu.max'' = Some content" and "prefix ''max'' content"
  shows "get_cgroup_cpu_limit s = fminus1"
proof -
  obtain zs where "content = ''max'' @ zs"
    using assms(2) by (auto simp: prefix_def)
  then show ?thesis
    using assms(1)
    by (simp add: get_cgroup_cpu_limit_def fread_def cstr_def NUL_def strncmp_eq_def)
qed

lemma not_fgt_fminus1: "\<not> fgt fminus1 fzero"
  by (simp add: fminus1_def fzero_def fval_def)

lemma scan_s63_max: "scan_s63 (''max '' @ r) = Some (''max'', CHR '' '' # r)"
  by (simp add: scan_s63_def isspace_def)

lemma scan_lld_minus1: "scan_lld ''-1\<newline>'' = Some (- 1, ''\<newline>'')"
  by (simp add: scan_lld_def scan_sign_def isspace_def isdigit_def dec_val_def digit_val_def
      LLONG_MIN_def)

lemma get_cpu_limit_millicores_max:
  assumes "0 \<le> period" and "period \<le> LLONG_MAX"
    and "files s ''/sys/fs/cgroup/cpu.max'' = Some (''max '' @ dec period @ ''\<newline>'')"
  shows "get_cpu_limit_millicores s = Returns (- 1)"
proof -
  have "scan_s63 ('' '' @ dec period @ CHR 0x0A # []) = Some (dec period, CHR 0x0A # [])"
    using assms(1,2) by (rule scan_s63_dec) (simp_all add: isspace_def)
  then have two: "scan_s63 (CHR '' '' # dec period @ ''\<newline>'') = Some (dec period, ''\<newline>'')"
    by simp
  have c: "cstr ''max'' = ''max''"
    by (simp add: cstr_def NUL_def)
  show ?thesis
    by (simp add: get_cpu_limit_millicores_def assms(3) scan_s63_max two c del: append.simps)
qed

lemma legacy_loop_unbounded:
  assumes "0 \<le> period" and "period \<le> LLONG_MAX"
    and "files s qp = Some ''-1\<newline>''" and "files s pp = Some (dec period @ ''\<newline>'')"
  shows "legacy_loop s ((qp, pp) # rest) = Returns (- 1)"
proof -
  have "scan_lld ([] @ dec period @ ''\<newline>'') = Some (period, ''\<newline>'')"
    using assms(1,2) by (rule scan_lld_dec) (simp_all add: no_digit_ahead_def isdigit_def)
  then show ?thesis
    by (simp add: assms(3,4) scan_lld_minus1)
qed

lemma legacy_loop_skip:
  assumes "files s qp = None \<or> files s pp = None"
  shows "legacy_loop s ((qp, pp) # rest) = legacy_loop s rest"
  using assms by (auto split: option.splits)

text \<open>
  C2, as amended. When \<^verbatim>\<open>cpu.max\<close> starts with \<^verbatim>\<open>max\<close>, \<^verbatim>\<open>get_cgroup_cpu_limit\<close>
  returns \<open>- 1.0\<close> and \<^verbatim>\<open>get_cpu_limit_cores\<close> returns the override when that is
  positive and the host core count otherwise. \<^verbatim>\<open>get_cpu_limit_millicores\<close> returns
  \<open>- 1\<close> for \<^verbatim>\<open>max period\<close> in \<^verbatim>\<open>cpu.max\<close>, and, when there is no \<^verbatim>\<open>cpu.max\<close>, for a quota
  of \<open>- 1\<close> in the first legacy mount point whose two files open. The library function
  reads no file but \<^verbatim>\<open>cpu.max\<close>, so a legacy quota does not reach it.
\<close>

theorem unbounded_cpu_limit:
  "(files s ''/sys/fs/cgroup/cpu.max'' = Some content \<and> prefix ''max'' content \<longrightarrow>
      get_cgroup_cpu_limit s = fminus1
      \<and> get_cpu_limit_cores s =
          (if fgt (get_env_cpu_limit s) fzero then get_env_cpu_limit s
           else float_of_int (nprocs s)))
   \<and> (0 \<le> period \<and> period \<le> LLONG_MAX
       \<and> files s ''/sys/fs/cgroup/cpu.max'' = Some (''max '' @ dec period @ ''\<newline>'') \<longrightarrow>
      get_cpu_limit_millicores s = Returns (- 1))
   \<and> (0 \<le> period \<and> period \<le> LLONG_MAX
       \<and> files s ''/sys/fs/cgroup/cpu.max'' = None
       \<and> files s ''/sys/fs/cgroup/cpu/cpu.cfs_quota_us'' = Some ''-1\<newline>''
       \<and> files s ''/sys/fs/cgroup/cpu/cpu.cfs_period_us'' = Some (dec period @ ''\<newline>'') \<longrightarrow>
      get_cpu_limit_millicores s = Returns (- 1))
   \<and> (0 \<le> period \<and> period \<le> LLONG_MAX
       \<and> files s ''/sys/fs/cgroup/cpu.max'' = None
       \<and> (files s ''/sys/fs/cgroup/cpu/cpu.cfs_quota_us'' = None
            \<or> files s ''/sys/fs/cgroup/cpu/cpu.cfs_period_us'' = None)
       \<and> files s ''/sys/fs/cgroup/cpu,cpuacct/cpu.cfs_quota_us'' = Some ''-1\<newline>''
       \<and> files s ''/sys/fs/cgroup/cpu,cpuacct/cpu.cfs_period_us'' = Some (dec period @ ''\<newline>'') \<longrightarrow>
      get_cpu_limit_millicores s = Returns (- 1))
   \<and> (p \<noteq> ''/sys/fs/cgroup/cpu.max'' \<longrightarrow>
      get_cpu_limit_cores (s\<lparr>files := (files s)(p := v)\<rparr>) = get_cpu_limit_cores s)"
proof (intro conjI impI)
  assume a: "files s ''/sys/fs/cgroup/cpu.max'' = Some content \<and> prefix ''max'' content"
  then show m: "get_cgroup_cpu_limit s = fminus1"
    using get_cgroup_cpu_limit_max by blast
  show "get_cpu_limit_cores s =
          (if fgt (get_env_cpu_limit s) fzero then get_env_cpu_limit s
           else float_of_int (nprocs s))"
    using not_fgt_fminus1 by (simp add: get_cpu_limit_cores_def m Let_def)
next
  assume "0 \<le> period \<and> period \<le> LLONG_MAX
       \<and> files s ''/sys/fs/cgroup/cpu.max'' = Some (''max '' @ dec period @ ''\<newline>'')"
  then show "get_cpu_limit_millicores s = Returns (- 1)"
    using get_cpu_limit_millicores_max by blast
next
  assume "0 \<le> period \<and> period \<le> LLONG_MAX
       \<and> files s ''/sys/fs/cgroup/cpu.max'' = None
       \<and> files s ''/sys/fs/cgroup/cpu/cpu.cfs_quota_us'' = Some ''-1\<newline>''
       \<and> files s ''/sys/fs/cgroup/cpu/cpu.cfs_period_us'' = Some (dec period @ ''\<newline>'')"
  then show "get_cpu_limit_millicores s = Returns (- 1)"
    using legacy_loop_unbounded [of period s]
    by (simp add: get_cpu_limit_millicores_def legacy_paths_def del: legacy_loop.simps)
next
  assume a: "0 \<le> period \<and> period \<le> LLONG_MAX
       \<and> files s ''/sys/fs/cgroup/cpu.max'' = None
       \<and> (files s ''/sys/fs/cgroup/cpu/cpu.cfs_quota_us'' = None
            \<or> files s ''/sys/fs/cgroup/cpu/cpu.cfs_period_us'' = None)
       \<and> files s ''/sys/fs/cgroup/cpu,cpuacct/cpu.cfs_quota_us'' = Some ''-1\<newline>''
       \<and> files s ''/sys/fs/cgroup/cpu,cpuacct/cpu.cfs_period_us'' = Some (dec period @ ''\<newline>'')"
  then have "legacy_loop s legacy_paths
      = legacy_loop s [(''/sys/fs/cgroup/cpu,cpuacct/cpu.cfs_quota_us'',
                        ''/sys/fs/cgroup/cpu,cpuacct/cpu.cfs_period_us'')]"
    unfolding legacy_paths_def by (intro legacy_loop_skip) simp
  also have "\<dots> = Returns (- 1)"
    using a by (intro legacy_loop_unbounded [of period]) simp_all
  finally show "get_cpu_limit_millicores s = Returns (- 1)"
    using a by (simp add: get_cpu_limit_millicores_def)
next
  assume "p \<noteq> ''/sys/fs/cgroup/cpu.max''"
  then have "files (s\<lparr>files := (files s)(p := v)\<rparr>) ''/sys/fs/cgroup/cpu.max''
             = files s ''/sys/fs/cgroup/cpu.max''"
    by simp
  then have "get_cgroup_cpu_limit (s\<lparr>files := (files s)(p := v)\<rparr>) = get_cgroup_cpu_limit s"
    unfolding get_cgroup_cpu_limit_def by (rule arg_cong)
  moreover have "get_env_cpu_limit (s\<lparr>files := (files s)(p := v)\<rparr>) = get_env_cpu_limit s"
    by (simp add: get_env_cpu_limit_def)
  ultimately show "get_cpu_limit_cores (s\<lparr>files := (files s)(p := v)\<rparr>) = get_cpu_limit_cores s"
    by (simp add: get_cpu_limit_cores_def Let_def cong: if_cong)
qed

theorem unbounded_cpu_limit_witness:
  "files cpu_unbounded ''/sys/fs/cgroup/cpu.max'' = Some (''max '' @ dec 100000 @ ''\<newline>'')
   \<and> prefix ''max'' (''max '' @ dec 100000 @ ''\<newline>'')
   \<and> get_cgroup_cpu_limit cpu_unbounded = fminus1
   \<and> get_cpu_limit_cores cpu_unbounded = Fin False 8
   \<and> get_cpu_limit_millicores cpu_unbounded = Returns (- 1)
   \<and> files legacy_unbounded ''/sys/fs/cgroup/cpu/cpu.cfs_quota_us'' = None
   \<and> get_cpu_limit_millicores legacy_unbounded = Returns (- 1)
   \<and> get_cpu_limit_cores legacy_unbounded = get_cpu_limit_cores
        (legacy_unbounded\<lparr>files := (files legacy_unbounded)
           (''/sys/fs/cgroup/cpu,cpuacct/cpu.cfs_quota_us'' := None)\<rparr>)"
proof -
  have d: "dec 100000 = ''100000''"
    by (simp add: dec.simps digit_char_def)
  have f: "files cpu_unbounded ''/sys/fs/cgroup/cpu.max'' = Some (''max '' @ dec 100000 @ ''\<newline>'')"
    by (simp add: d cpu_unbounded_def)
  have p: "prefix ''max'' (''max '' @ dec 100000 @ ''\<newline>'')"
    by simp
  have e: "get_env_cpu_limit cpu_unbounded = fminus1"
    by (simp add: get_env_cpu_limit_def cpu_unbounded_def bare_host_def)
  have n: "float_of_int (nprocs cpu_unbounded) = Fin False 8"
    by code_simp
  note u = unbounded_cpu_limit [of cpu_unbounded "''max '' @ dec 100000 @ ''\<newline>''" 100000]
  have "get_cgroup_cpu_limit cpu_unbounded = fminus1"
    using u f p by blast
  moreover have "get_cpu_limit_cores cpu_unbounded = Fin False 8"
    using u [THEN conjunct1] f p not_fgt_fminus1 by (simp add: e n)
  moreover have "get_cpu_limit_millicores cpu_unbounded = Returns (- 1)"
    using u [THEN conjunct2, THEN conjunct1] f by (simp add: LLONG_MAX_def)
  moreover have "get_cpu_limit_millicores legacy_unbounded = Returns (- 1)"
    using unbounded_cpu_limit [of legacy_unbounded "[]" 100000,
        THEN conjunct2, THEN conjunct2, THEN conjunct2, THEN conjunct1]
    by (simp add: LLONG_MAX_def legacy_unbounded_def bare_host_def d)
  moreover have "get_cpu_limit_cores legacy_unbounded = get_cpu_limit_cores
        (legacy_unbounded\<lparr>files := (files legacy_unbounded)
           (''/sys/fs/cgroup/cpu,cpuacct/cpu.cfs_quota_us'' := None)\<rparr>)"
    using unbounded_cpu_limit [of legacy_unbounded "[]" 100000
        "''/sys/fs/cgroup/cpu,cpuacct/cpu.cfs_quota_us''" None,
        THEN conjunct2, THEN conjunct2, THEN conjunct2, THEN conjunct2]
    by simp
  moreover have "files legacy_unbounded ''/sys/fs/cgroup/cpu/cpu.cfs_quota_us'' = None"
    by (simp add: legacy_unbounded_def bare_host_def)
  ultimately show ?thesis
    using f p by simp
qed

text \<open>
  With \<^verbatim>\<open>max\<close> in \<^verbatim>\<open>cpu.max\<close> the resolved limit is the host core count, the value
  resolved on a host without any cgroup file; and \<open>- 1\<close> millicores is also the answer
  when no limit source exists.
\<close>

theorem unbounded_cpu_limit_counterexample:
  "files cpu_unbounded ''/sys/fs/cgroup/cpu.max'' = Some ''max 100000\<newline>''
   \<and> nprocs cpu_unbounded = 8
   \<and> get_cpu_limit_cores cpu_unbounded = Fin False 8
   \<and> get_cpu_limit_cores cpu_unbounded = float_of_int (nprocs cpu_unbounded)
   \<and> get_cpu_limit_cores bare_host = get_cpu_limit_cores cpu_unbounded
   \<and> get_cpu_limit_millicores cpu_unbounded = Returns (- 1)
   \<and> get_cpu_limit_millicores bare_host = Returns (- 1)"
proof -
  have "get_cpu_limit_cores cpu_unbounded = Fin False 8"
    by code_simp
  moreover have "get_cpu_limit_cores bare_host = Fin False 8"
    by code_simp
  moreover have "float_of_int 8 = Fin False 8"
    by code_simp
  moreover have "get_cpu_limit_millicores cpu_unbounded = Returns (- 1)"
    by code_simp
  moreover have "get_cpu_limit_millicores bare_host = Returns (- 1)"
    by code_simp
  ultimately show ?thesis
    by (simp add: cpu_unbounded_def bare_host_def)
qed

subsection \<open>Further properties\<close>

text \<open>
  X1. With 512 MiB used of a cgroup limit of 1024 MiB the usage ratio is exactly \<open>0.5\<close>.
\<close>

theorem memory_usage_half:
  "get_memory_limit_bytes container_half = 1024 * 1024 * 1024
   \<and> get_memory_used_bytes container_half = 512 * 1024 * 1024
   \<and> get_memory_usage container_half = Fin False (1 / 2)"
proof -
  have "get_memory_limit_bytes container_half = 1073741824"
    by code_simp
  moreover have "get_memory_used_bytes container_half = 536870912"
    by code_simp
  moreover have "get_memory_usage container_half = Fin False (1 / 2)"
    by code_simp
  ultimately show ?thesis
    by simp
qed

text \<open>
  X2. A \<^verbatim>\<open>cpu.max\<close> whose period is not positive is treated as absent: the reader returns
  its "not available" value and the resolved limit is the override when positive, the
  host core count otherwise.
\<close>

theorem nonpositive_period_absent:
  assumes "files s ''/sys/fs/cgroup/cpu.max'' = Some content"
    and "sscanf_lld_lld (cstr (fread 63 content)) = (2, quota, period)"
    and "period \<le> 0"
  shows "get_cgroup_cpu_limit s = fminus1
         \<and> get_cpu_limit_cores s =
             (if fgt (get_env_cpu_limit s) fzero then get_env_cpu_limit s
              else float_of_int (nprocs s))"
proof -
  have "get_cgroup_cpu_limit s = fminus1"
    using assms by (simp add: get_cgroup_cpu_limit_def Let_def)
  then show ?thesis
    using not_fgt_fminus1 by (simp add: get_cpu_limit_cores_def Let_def)
qed

theorem nonpositive_period_absent_witness:
  "files cpu_zero_period ''/sys/fs/cgroup/cpu.max'' = Some ''100000 0\<newline>''
   \<and> sscanf_lld_lld (cstr (fread 63 ''100000 0\<newline>'')) = (2, 100000, 0)
   \<and> get_cgroup_cpu_limit cpu_zero_period = fminus1
   \<and> get_cpu_limit_cores cpu_zero_period = Fin False 8"
proof -
  have f: "files cpu_zero_period ''/sys/fs/cgroup/cpu.max'' = Some ''100000 0\<newline>''"
    by (simp add: cpu_zero_period_def)
  have p: "sscanf_lld_lld (cstr (fread 63 ''100000 0\<newline>'')) = (2, 100000, 0)"
    by code_simp
  have e: "get_env_cpu_limit cpu_zero_period = fminus1"
    by (simp add: get_env_cpu_limit_def cpu_zero_period_def bare_host_def)
  have n: "float_of_int (nprocs cpu_zero_period) = Fin False 8"
    by code_simp
  show ?thesis
    using nonpositive_period_absent [OF f p] f p not_fgt_fminus1 by (simp add: e n)
qed

text \<open>
  X3. \<^verbatim>\<open>get_cpu_limit_millicores\<close> on a legacy pair that holds a quota other than \<open>- 1\<close> and
  a period that is not positive: both files are closed twice, the behaviour is undefined.
\<close>

theorem legacy_zero_period_undefined:
  "files legacy_zero_period ''/sys/fs/cgroup/cpu.max'' = None
   \<and> files legacy_zero_period ''/sys/fs/cgroup/cpu/cpu.cfs_quota_us'' = Some ''250000\<newline>''
   \<and> files legacy_zero_period ''/sys/fs/cgroup/cpu/cpu.cfs_period_us'' = Some ''0\<newline>''
   \<and> get_cpu_limit_millicores legacy_zero_period = Undefined"
proof -
  have "get_cpu_limit_millicores legacy_zero_period = Undefined"
    by code_simp
  then show ?thesis
    by (simp add: legacy_zero_period_def bare_host_def)
qed

end
